theory Spec2Isabelle
  imports Main "HOL-Library.AList"
begin

section \<open>Data model of the room document (src/app/page.tsx)\<close>

text \<open>
  The room is a Yjs document holding several shared maps and one shared array. A shared
  map from string keys is modelled as an association list with pairwise distinct keys:
  \<open>map_of\<close> is \<open>get\<close>, \<open>AList.update\<close> is \<open>set\<close>, \<open>AList.delete\<close> is \<open>delete\<close>, and
  the list order is the order in which the entries are iterated. The results proved
  below do not depend on that order. Timestamps (\<open>Date.now()\<close>) are integers in milliseconds; all
  readings of the clock inside one synchronous handler are one value \<open>now\<close>.
\<close>

type_synonym 'v ymap = "(string \<times> 'v) list"

record Player =
  p_id :: string
  p_name :: string

datatype Phase = Lobby | Playing | Voting | TieGuess | Revealed | Postgame

datatype GameMode = Classic | Double

datatype Winner = Civ | Spy

datatype Lang = TH | EN

text \<open>
  The texts the program writes are localised literals (Thai or English) and templates
  over them. A text is kept as the language together with the message and its
  arguments, not as the rendered characters.
\<close>

datatype Reason =
    VotedSpyCorrectly | VotedWrongPerson
  | SpyGuessedCorrectlyAfterTie | SpyGuessedWrongAfterTie
  | SpyGuessedCorrectly | SpyGuessedWrong
  | SpyDidNotGuess | OnlyTwoPlayersLeft | AllSpiesLeft

datatype SysText =
    VotingOpen | VotingWindow30
  | VoteSummary "(string \<times> string option) list"
  | TieNotice | OutcomeCiv | OutcomeSpy | WindowOutcomeCiv | WindowOutcomeSpy
  | SpyTiebreakGuess string bool | SpyAcceptedGuess string bool
  | TieTimeUp | RoomIdle | TwoPlayersLeftNotice | AllSpiesLeftNotice
  | GameStarted int

record ChatMsg =
  c_id :: string
  c_lang :: Lang
  c_text :: SysText
  c_ts :: int

record RoomState =
  phase :: Phase
  hostId :: "string option"
  gameMode :: GameMode
  createdAt :: "int option"
  roundNumber :: int
  roundStartAt :: "int option"
  timerEnd :: "int option"
  voteWindowEndsAt :: "int option"
  tieGuessEndsAt :: "int option"
  voteAnnouncedRound :: "int option"
  voteWindowSetRound :: "int option"
  location :: "string option"
  spyId :: "string option"
  spyIds :: "string list option"
  roles :: "string option ymap"
  selectedLocations :: "string list option"
  spyChoices :: "string option ymap option"
  winner :: "Winner option"
  winReason :: "(Lang \<times> Reason) option"
  closedAt :: "int option"

definition DEFAULT_STATE :: RoomState where
  "DEFAULT_STATE = \<lparr>
     phase = Lobby, hostId = None, gameMode = Classic, createdAt = None,
     roundNumber = 0, roundStartAt = None, timerEnd = None,
     voteWindowEndsAt = None, tieGuessEndsAt = None,
     voteAnnouncedRound = None, voteWindowSetRound = None,
     location = None, spyId = None, spyIds = None, roles = [],
     selectedLocations = None, spyChoices = Some [],
     winner = None, winReason = None, closedAt = None \<rparr>"

definition INACTIVITY_MS :: int where
  "INACTIVITY_MS = 5 * 60 * 1000"

text \<open>
  A value of the \<open>votes\<close> map is either a bare target string (an older format the code
  still reads) or an object with a target and an optional \<open>confirmed\<close> flag.
\<close>

datatype VoteVal = VStr string | VObj string "bool option"

text \<open>
  The document. \<open>stateY\<close> is read through \<open>{...DEFAULT_STATE, ...s}\<close>, so a key that was
  never written reads as its default: the map is kept as a complete \<open>RoomState\<close>.
  \<open>playersY\<close> maps a player id to the player's name (the stored object repeats the id).
\<close>

record Doc =
  playersY :: "string ymap"
  stateY :: RoomState
  votesY :: "VoteVal ymap"
  joinAtY :: "int ymap"
  lastSeenY :: "int ymap"
  chatY :: "ChatMsg list"
  activityY :: "int ymap"
  openVoteReqY :: "nat ymap"
  nameClaimsY :: "string ymap"

definition emptyDoc :: Doc where
  "emptyDoc = \<lparr> playersY = [], stateY = DEFAULT_STATE, votesY = [], joinAtY = [],
     lastSeenY = [], chatY = [], activityY = [], openVoteReqY = [], nameClaimsY = [] \<rparr>"

definition sendChat :: "Doc \<Rightarrow> Lang \<Rightarrow> SysText \<Rightarrow> int \<Rightarrow> Doc" where
  "sendChat d lang txt ts =
     d\<lparr>chatY := chatY d @ [\<lparr>c_id = ''system'', c_lang = lang, c_text = txt, c_ts = ts\<rparr>]\<rparr>"

definition resetVotes :: "Doc \<Rightarrow> Doc" where
  "resetVotes d = d\<lparr>votesY := []\<rparr>"

definition resetOpenVoteRequests :: "Doc \<Rightarrow> Doc" where
  "resetOpenVoteRequests d = d\<lparr>openVoteReqY := []\<rparr>"

subsection \<open>api.vote and api.confirmVote\<close>

definition existingTarget :: "VoteVal option \<Rightarrow> string option" where
  "existingTarget existing =
     (case existing of None \<Rightarrow> None | Some (VStr s) \<Rightarrow> Some s | Some (VObj t c) \<Rightarrow> Some t)"

definition existingConfirmed :: "VoteVal option \<Rightarrow> bool" where
  "existingConfirmed existing =
     (case existing of Some (VObj t c) \<Rightarrow> c = Some True | _ \<Rightarrow> False)"

definition vote :: "Doc \<Rightarrow> string \<Rightarrow> string \<Rightarrow> Doc" where
  "vote d voterId targetId =
     (let existing = map_of (votesY d) voterId in
      if existingConfirmed existing then d
      else if existingTarget existing = Some targetId
        then d\<lparr>votesY := AList.delete voterId (votesY d)\<rparr>
      else d\<lparr>votesY := AList.update voterId (VObj targetId (Some False)) (votesY d)\<rparr>)"

text \<open>\<open>if (!existing) return\<close>: a missing entry and the empty string are both falsy.\<close>

definition confirmVote :: "Doc \<Rightarrow> string \<Rightarrow> Doc" where
  "confirmVote d voterId =
     (case map_of (votesY d) voterId of
        None \<Rightarrow> d
      | Some (VStr s) \<Rightarrow>
          if s = [] then d
          else d\<lparr>votesY := AList.update voterId (VObj s (Some True)) (votesY d)\<rparr>
      | Some (VObj t c) \<Rightarrow>
          d\<lparr>votesY := AList.update voterId (VObj t (Some True)) (votesY d)\<rparr>)"

text \<open>A sequence of vote and confirm calls, by any voters, with no reset in between.\<close>

datatype VoteCall = CallVote string string | CallConfirm string

fun applyCall :: "VoteCall \<Rightarrow> Doc \<Rightarrow> Doc" where
  "applyCall (CallVote v t) d = vote d v t"
| "applyCall (CallConfirm v) d = confirmVote d v"

definition applyCalls :: "VoteCall list \<Rightarrow> Doc \<Rightarrow> Doc" where
  "applyCalls cs d = fold applyCall cs d"


subsection \<open>Client state and derived values\<close>

text \<open>
  What one browser holds besides the document: its identity, its language, whether it
  has joined, the configured round length, and the per-round guards kept in React refs.
\<close>

record Client =
  me_id :: string
  lang :: Lang
  connectedUI :: bool
  duration :: int
  processedVotesForRoundRef :: "int option"
  tieNoGuessResolvedRoundRef :: "int option"
  forceEndRef :: "int option"

definition players :: "Doc \<Rightarrow> Player list" where
  "players d = map (\<lambda>(i, n). \<lparr>p_id = i, p_name = n\<rparr>) (playersY d)"

text \<open>\<open>x ?? 0\<close> and \<open>x || 0\<close> on a number or null.\<close>

definition orZero :: "int option \<Rightarrow> int" where
  "orZero x = (case x of None \<Rightarrow> 0 | Some v \<Rightarrow> v)"

text \<open>A number or null used as a condition: null and 0 are falsy.\<close>

definition truthy :: "int option \<Rightarrow> bool" where
  "truthy x = (case x of None \<Rightarrow> False | Some v \<Rightarrow> v \<noteq> 0)"

text \<open>
  The \<open>votes\<close> snapshot the effects read: a bare string becomes an unconfirmed object.
\<close>

definition votes :: "Doc \<Rightarrow> VoteVal ymap" where
  "votes d = map (\<lambda>(k, val). (k, case val of VStr s \<Rightarrow> VObj s (Some False) | VObj t c \<Rightarrow> VObj t c))
     (votesY d)"

definition isHost :: "Client \<Rightarrow> Doc \<Rightarrow> bool" where
  "isHost c d = (hostId (stateY d) = Some (me_id c))"

definition spies :: "RoomState \<Rightarrow> string list" where
  "spies s =
     (case spyIds s of
        Some (x # xs) \<Rightarrow> x # xs
      | _ \<Rightarrow> (case spyId s of None \<Rightarrow> [] | Some i \<Rightarrow> if i = [] then [] else [i]))"

definition isSpy :: "Client \<Rightarrow> Doc \<Rightarrow> bool" where
  "isSpy c d = (me_id c \<in> set (spies (stateY d)))"

definition eligiblePlayers :: "Doc \<Rightarrow> Player list" where
  "eligiblePlayers d =
     filter (\<lambda>p. orZero (map_of (joinAtY d) (p_id p)) \<le> orZero (roundStartAt (stateY d)))
       (players d)"

definition entryTarget :: "VoteVal \<Rightarrow> string" where
  "entryTarget entry = (case entry of VStr s \<Rightarrow> s | VObj t c \<Rightarrow> t)"

definition entryConfirmed :: "VoteVal \<Rightarrow> bool" where
  "entryConfirmed entry = (case entry of VStr s \<Rightarrow> False | VObj t c \<Rightarrow> c = Some True)"

definition confirmedCount :: "Doc \<Rightarrow> nat" where
  "confirmedCount d =
     (if length (eligiblePlayers d) > 0
      then length (filter
             (\<lambda>uid. uid \<in> set (map p_id (eligiblePlayers d))
                \<and> (case map_of (votes d) uid of None \<Rightarrow> False | Some e \<Rightarrow> entryConfirmed e))
             (map fst (votes d)))
      else 0)"

definition everyoneConfirmed :: "Doc \<Rightarrow> bool" where
  "everyoneConfirmed d =
     (length (eligiblePlayers d) > 0 \<and> confirmedCount d = length (eligiblePlayers d))"

subsection \<open>The tally\<close>

text \<open>\<open>counts[targetId] = (counts[targetId] || 0) + 1\<close>\<close>

definition bump :: "nat ymap \<Rightarrow> string \<Rightarrow> nat ymap" where
  "bump counts targetId =
     AList.update targetId ((case map_of counts targetId of None \<Rightarrow> 0 | Some n \<Rightarrow> n) + 1) counts"

text \<open>
  The loop over \<open>Object.entries(votes)\<close>, once for each of the two effects that end the
  voting phase. The everyone-confirmed effect (line 820) skips an entry when
  \<open>!targetId || !confirmed\<close>; the window effect (line 856) skips it when
  \<open>!targetId || !confirmed || !eligibleIds.has(targetId)\<close>.
\<close>

definition countConfirmed :: "string list \<Rightarrow> VoteVal ymap \<Rightarrow> nat ymap" where
  "countConfirmed eligibleIds vs =
     fold (\<lambda>(voterId, entry) counts.
        if voterId \<notin> set eligibleIds then counts
        else if entryTarget entry = [] \<or> \<not> entryConfirmed entry then counts
        else bump counts (entryTarget entry)) vs []"

definition countWindow :: "string list \<Rightarrow> VoteVal ymap \<Rightarrow> nat ymap" where
  "countWindow eligibleIds vs =
     fold (\<lambda>(voterId, entry) counts.
        if voterId \<notin> set eligibleIds then counts
        else if entryTarget entry = [] \<or> \<not> entryConfirmed entry
                \<or> entryTarget entry \<notin> set eligibleIds then counts
        else bump counts (entryTarget entry)) vs []"

definition maxCount :: "nat ymap \<Rightarrow> nat" where
  "maxCount counts = (let vals = map snd counts in if vals = [] then 0 else Max (set vals))"

definition topTargets :: "nat ymap \<Rightarrow> string list" where
  "topTargets counts = map fst (filter (\<lambda>(tid, n). n = maxCount counts) counts)"

definition isTie :: "nat ymap \<Rightarrow> bool" where
  "isTie counts = (length (topTargets counts) \<ge> 2 \<and> maxCount counts > 0)"

text \<open>\<open>topTargets[0] || null\<close>\<close>

definition guessedId :: "nat ymap \<Rightarrow> string option" where
  "guessedId counts =
     (case topTargets counts of [] \<Rightarrow> None | t # ts \<Rightarrow> if t = [] then None else Some t)"

definition isSpyHit :: "RoomState \<Rightarrow> nat ymap \<Rightarrow> bool" where
  "isSpyHit s counts = (case guessedId counts of None \<Rightarrow> False | Some g \<Rightarrow> g \<in> set (spies s))"

text \<open>\<open>players.find(p => p.id === id)?.name\<close>, with the empty name falsy.\<close>

definition playerName :: "Doc \<Rightarrow> string \<Rightarrow> string option" where
  "playerName d i =
     (case map_of (playersY d) i of None \<Rightarrow> None | Some n \<Rightarrow> if n = [] then None else Some n)"

text \<open>
  A line of a vote summary is the voter's name and the name shown for the target;
  \<open>None\<close> is the dash shown for no target, an unconfirmed vote or an unknown player.
\<close>

definition shownTarget :: "Doc \<Rightarrow> VoteVal option \<Rightarrow> string option" where
  "shownTarget d entry =
     (case entry of
        None \<Rightarrow> None
      | Some e \<Rightarrow>
          if entryConfirmed e then (if entryTarget e = [] then None else playerName d (entryTarget e))
          else None)"

definition postVoteSummaryChat :: "Client \<Rightarrow> int \<Rightarrow> Doc \<Rightarrow> bool \<Rightarrow> Winner option \<Rightarrow> Doc \<Rightarrow> Doc" where
  "postVoteSummaryChat c now snap tie w d =
     (let summary = map (\<lambda>voter. (p_name voter, shownTarget snap (map_of (votes snap) (p_id voter))))
                      (eligiblePlayers snap);
          d1 = sendChat d (lang c) (VoteSummary summary) now
      in if tie then sendChat d1 (lang c) TieNotice now
         else (case w of
                 None \<Rightarrow> d1
               | Some Civ \<Rightarrow> sendChat d1 (lang c) OutcomeCiv now
               | Some Spy \<Rightarrow> sendChat d1 (lang c) OutcomeSpy now))"

text \<open>Lines 805-841: every eligible player has confirmed (host only, once per round).\<close>

definition everyoneConfirmedEffect :: "Client \<Rightarrow> int \<Rightarrow> Doc \<Rightarrow> Client \<times> Doc" where
  "everyoneConfirmedEffect c now d =
     (if \<not> isHost c d then (c, d)
      else if phase (stateY d) \<noteq> Voting then (c, d)
      else if \<not> everyoneConfirmed d then (c, d)
      else
        let key = orZero (roundStartAt (stateY d)) in
        if processedVotesForRoundRef c = Some key then (c, d)
        else
          let c' = c\<lparr>processedVotesForRoundRef := Some key\<rparr>;
              eligibleIds = map p_id (eligiblePlayers d);
              counts = countConfirmed eligibleIds (votes d)
          in if isTie counts then
               (c', postVoteSummaryChat c now d True None
                  (d\<lparr>stateY := (stateY d)\<lparr>phase := TieGuess, voteWindowEndsAt := None,
                      tieGuessEndsAt := Some (now + 20000), timerEnd := Some (now + 20000)\<rparr>\<rparr>))
             else
               let hit = isSpyHit (stateY d) counts;
                   w = (if hit then Civ else Spy);
                   reason = (if hit then VotedSpyCorrectly else VotedWrongPerson)
               in (c', postVoteSummaryChat c now d False (Some w)
                     (d\<lparr>stateY := (stateY d)\<lparr>phase := Revealed, winner := Some w,
                         winReason := Some (lang c, reason)\<rparr>\<rparr>)))"

text \<open>Lines 844-889: the 30-second vote window has elapsed (host only).\<close>

definition windowSummary :: "Doc \<Rightarrow> string list \<Rightarrow> (string \<times> string option) list" where
  "windowSummary d eligibleIds =
     map (\<lambda>(voter, v).
            (case playerName d voter of None \<Rightarrow> ''??'' | Some n \<Rightarrow> n,
             if entryConfirmed v then playerName d (entryTarget v) else None))
       (filter (\<lambda>(voter, v). voter \<in> set eligibleIds) (votes d))"

definition voteWindowEffect :: "Client \<Rightarrow> int \<Rightarrow> Doc \<Rightarrow> Doc" where
  "voteWindowEffect c now d =
     (if \<not> isHost c d then d
      else if phase (stateY d) \<noteq> Voting then d
      else if \<not> truthy (voteWindowEndsAt (stateY d)) then d
      else if now < orZero (voteWindowEndsAt (stateY d)) then d
      else
        let eligibleIds = map p_id (eligiblePlayers d);
            counts = countWindow eligibleIds (votes d)
        in if isTie counts then
             postVoteSummaryChat c now d True None
               (d\<lparr>stateY := (stateY d)\<lparr>phase := TieGuess, voteWindowEndsAt := None,
                   tieGuessEndsAt := Some (now + 20000), timerEnd := Some (now + 20000)\<rparr>\<rparr>)
           else
             let hit = isSpyHit (stateY d) counts;
                 w = (if hit then Civ else Spy);
                 reason = (if hit then VotedSpyCorrectly else VotedWrongPerson);
                 d1 = d\<lparr>stateY := (stateY d)\<lparr>phase := Revealed, winner := Some w,
                        winReason := Some (lang c, reason)\<rparr>\<rparr>;
                 d2 = sendChat d1 (lang c) (VoteSummary (windowSummary d eligibleIds)) now
             in sendChat d2 (lang c) (if hit then WindowOutcomeCiv else WindowOutcomeSpy) now)"

subsection \<open>The spy's guess (lines 892-910)\<close>

definition handleSpyPickWin :: "Client \<Rightarrow> int \<Rightarrow> string \<Rightarrow> Doc \<Rightarrow> Doc" where
  "handleSpyPickWin c now pickName d =
     (if \<not> isSpy c d then d
      else if \<not> (phase (stateY d) = Voting \<or> phase (stateY d) = TieGuess) then d
      else if phase (stateY d) = TieGuess then
        let correct = (Some pickName = location (stateY d));
            w = (if correct then Spy else Civ);
            reason = (if correct then SpyGuessedCorrectlyAfterTie else SpyGuessedWrongAfterTie)
        in sendChat
             (d\<lparr>stateY := (stateY d)\<lparr>phase := Revealed, winner := Some w,
                 winReason := Some (lang c, reason)\<rparr>\<rparr>)
             (lang c) (SpyTiebreakGuess pickName correct) now
      else
        let correct = (Some pickName = location (stateY d)) in
        sendChat
          (d\<lparr>stateY := (stateY d)\<lparr>phase := Revealed,
              winner := Some (if correct then Spy else Civ),
              winReason := Some (lang c, if correct then SpyGuessedCorrectly else SpyGuessedWrong)\<rparr>\<rparr>)
          (lang c) (SpyAcceptedGuess pickName correct) now)"

subsection \<open>New round (lines 1151-1163)\<close>

definition newRound :: "Client \<Rightarrow> Doc \<Rightarrow> Client \<times> Doc" where
  "newRound c d =
     (if \<not> isHost c d then (c, d)
      else
        let s = stateY d;
            d1 = d\<lparr>stateY := DEFAULT_STATE\<lparr>hostId := hostId s, gameMode := gameMode s,
                   createdAt := createdAt s, roundNumber := roundNumber s\<rparr>\<rparr>
        in (c\<lparr>processedVotesForRoundRef := None, forceEndRef := None\<rparr>,
            resetOpenVoteRequests (resetVotes d1)))"


subsection \<open>Names (lines 226-227, 250-252)\<close>

text \<open>
  Strings are lists of 8-bit characters, so the functions below are the program's on
  ASCII text: \<open>\s\<close> is the ASCII white space, \<open>\d\<close> a decimal digit, and
  \<open>toLowerCase\<close> maps \<open>A-Z\<close> to \<open>a-z\<close>.
\<close>

definition isSpace :: "char \<Rightarrow> bool" where
  "isSpace ch = (ch \<in> set [CHR '' '', CHR 0x09, CHR 0x0A, CHR 0x0B, CHR 0x0C, CHR 0x0D])"

definition isDigit :: "char \<Rightarrow> bool" where
  "isDigit ch = (ch \<in> set ''0123456789'')"

definition trim :: "string \<Rightarrow> string" where
  "trim s = rev (dropWhile isSpace (rev (dropWhile isSpace s)))"

text \<open>\<open>replace(/\s+/g, ' ')\<close>\<close>

function collapseSpaces :: "string \<Rightarrow> string" where
  "collapseSpaces [] = []"
| "collapseSpaces (ch # cs) =
     (if isSpace ch then CHR '' '' # collapseSpaces (dropWhile isSpace cs)
      else ch # collapseSpaces cs)"
  by pat_completeness auto
termination
  by (relation "measure length") (auto simp: le_imp_less_Suc length_dropWhile_le)

definition normalizeName :: "string \<Rightarrow> string" where
  "normalizeName input = collapseSpaces (trim input)"

definition lowerChar :: "char \<Rightarrow> char" where
  "lowerChar ch =
     (let n = (of_char ch :: nat) in if 65 \<le> n \<and> n \<le> 90 then char_of (n + 32) else ch)"

definition toLowerCase :: "string \<Rightarrow> string" where
  "toLowerCase s = map lowerChar s"

definition nameKey :: "string \<Rightarrow> string" where
  "nameKey n = toLowerCase (normalizeName n)"

text \<open>
  \<open>replace(/\s+\(\d+\)$/, '')\<close>: a final \<open>)\<close>, before it one or more digits, before
  them \<open>(\<close>, before that one or more white space characters; the match, if there is
  one, starts where that white space starts.
\<close>

definition stripNumberSuffix :: "string \<Rightarrow> string" where
  "stripNumberSuffix s =
     (case rev s of
        [] \<Rightarrow> s
      | ch # r \<Rightarrow>
          if ch \<noteq> CHR '')'' then s
          else if takeWhile isDigit r = [] then s
          else (case dropWhile isDigit r of
                  [] \<Rightarrow> s
                | par # r2 \<Rightarrow>
                    if par \<noteq> CHR ''(''  then s
                    else if takeWhile isSpace r2 = [] then s
                    else rev (dropWhile isSpace r2)))"

definition baseName :: "string \<Rightarrow> string" where
  "baseName n = stripNumberSuffix (normalizeName n)"

text \<open>The decimal digits of a number, as a template string prints it.\<close>

fun showNat :: "nat \<Rightarrow> string" where
  "showNat n =
     (if n < 10 then [char_of (48 + n)] else showNat (n div 10) @ [char_of (48 + n mod 10)])"

text \<open>\<open>`${base} (${i})`\<close>\<close>

definition numbered :: "string \<Rightarrow> nat \<Rightarrow> string" where
  "numbered base i = base @ '' ('' @ showNat i @ '')''"

text \<open>
  A name as \<open>normalizeName\<close> returns it: not empty, no white space at either end, no run of
  white space inside. \<open>nthName base j\<close> is the name the \<open>j\<close>-th taker of \<open>base\<close> gets
  (counting from 0), and \<open>readNat\<close> reads a decimal numeral back.
\<close>

definition tidy :: "string \<Rightarrow> bool" where
  "tidy b = (b \<noteq> [] \<and> \<not> isSpace (hd b) \<and> \<not> isSpace (last b) \<and> collapseSpaces b = b)"

definition nthName :: "string \<Rightarrow> nat \<Rightarrow> string" where
  "nthName base j = (if j = 0 then base else numbered base (j + 1))"

definition readNat :: "string \<Rightarrow> nat" where
  "readNat s = foldl (\<lambda>a ch. 10 * a + (of_char ch - 48)) 0 s"


subsection \<open>api.removePlayer (lines 420-446)\<close>

definition removePlayer :: "Doc \<Rightarrow> string \<Rightarrow> Doc" where
  "removePlayer d i =
     (let claims =
            (case map_of (playersY d) i of
               None \<Rightarrow> nameClaimsY d
             | Some cur \<Rightarrow>
                 let k = nameKey cur in
                 if map_of (nameClaimsY d) k = Some i then AList.delete k (nameClaimsY d)
                 else nameClaimsY d)
      in d\<lparr> nameClaimsY := claims,
            playersY := AList.delete i (playersY d),
            joinAtY := AList.delete i (joinAtY d),
            lastSeenY := AList.delete i (lastSeenY d),
            votesY := AList.delete i (votesY d),
            activityY := AList.delete i (activityY d),
            openVoteReqY := AList.delete i (openVoteReqY d),
            stateY := (if hostId (stateY d) = Some i then (stateY d)\<lparr>hostId := None\<rparr>
                       else stateY d) \<rparr>)"

text \<open>
  The callback removePlayer hands to \<open>queueMicrotask\<close>; it runs after the synchronous
  code that called removePlayer has finished. When no player is left it marks
  \<open>closedAt\<close>, empties the other maps and then writes every entry of \<open>DEFAULT_STATE\<close>,
  \<open>closedAt: null\<close> among them.
\<close>

definition lastPlayerCleanup :: "int \<Rightarrow> Doc \<Rightarrow> Doc" where
  "lastPlayerCleanup now d =
     (if length (playersY d) = 0 then
        let d1 = d\<lparr>stateY := (stateY d)\<lparr>closedAt := Some now\<rparr>\<rparr>;
            d2 = d1\<lparr>votesY := [], joinAtY := [], lastSeenY := [], activityY := [],
                   openVoteReqY := [], nameClaimsY := []\<rparr>
        in d2\<lparr>stateY := DEFAULT_STATE\<rparr>
      else d)"

subsection \<open>Closing an idle room (lines 927-939)\<close>

definition latestActivity :: "Doc \<Rightarrow> int" where
  "latestActivity d =
     (let activityVals = map snd (activityY d) in
      Max (set ([0] @ (if activityVals \<noteq> [] then activityVals else [0])
                 @ [orZero (roundStartAt (stateY d)), orZero (createdAt (stateY d))])))"

text \<open>
  The synchronous part of the effect. It returns the document and the number of
  removePlayer calls it made, each of which queued one \<open>lastPlayerCleanup\<close>.
\<close>

definition idleCloseEffect :: "Client \<Rightarrow> int \<Rightarrow> Doc \<Rightarrow> Doc \<times> nat" where
  "idleCloseEffect c now d =
     (if \<not> connectedUI c then (d, 0)
      else if latestActivity d = 0 then (d, 0)
      else if now - latestActivity d \<ge> INACTIVITY_MS \<and> \<not> truthy (closedAt (stateY d)) then
        let d1 = d\<lparr>stateY := (stateY d)\<lparr>phase := Lobby, closedAt := Some now, winner := None,
                     winReason := None, selectedLocations := None, spyChoices := Some [],
                     voteAnnouncedRound := None, voteWindowSetRound := None\<rparr>\<rparr>;
            d2 = sendChat d1 (lang c) RoomIdle now;
            ps = map fst (activityY d)
        in (fold (\<lambda>p acc. removePlayer acc p) ps d2, length ps)
      else (d, 0))"

text \<open>One evaluation: the effect, then the callbacks it queued.\<close>

definition idleCloseTick :: "Client \<Rightarrow> int \<Rightarrow> Doc \<Rightarrow> Doc" where
  "idleCloseTick c now d =
     (let (d', queued) = idleCloseEffect c now d in (lastPlayerCleanup now ^^ queued) d')"

subsection \<open>Starting a round (lines 1104-1147)\<close>

record Location =
  l_name :: string
  l_roles :: "string list"

text \<open>
  The random choices of one call. \<open>Math.floor(Math.random() * n)\<close> is some index below
  \<open>n\<close>: a draw is a natural number \<open>r\<close> and the index is \<open>r mod n\<close>. A shuffle
  (\<open>sort(() => Math.random() - 0.5)\<close>) is a function on lists.
\<close>

record Rng =
  shuffleLocations :: "Location list \<Rightarrow> Location list"
  drawLocation :: nat
  drawSpy1 :: nat
  drawSpy2 :: nat
  drawSpy :: nat
  shuffleRoles :: "string list \<Rightarrow> string list"

definition startPool :: "Rng \<Rightarrow> Location list \<Rightarrow> RoomState \<Rightarrow> Location list" where
  "startPool rng locations s =
     (let base = (case selectedLocations s of
                    None \<Rightarrow> locations
                  | Some sel \<Rightarrow>
                      if length sel > 0 then filter (\<lambda>l. l_name l \<in> set sel) locations
                      else locations)
      in if length base > 16 then take 16 (shuffleLocations rng base) else base)"

definition pickSpies :: "Rng \<Rightarrow> GameMode \<Rightarrow> string list \<Rightarrow> string list" where
  "pickSpies rng mode ids =
     (if mode = Double \<and> length ids \<ge> 8 then
        let i1 = drawSpy1 rng mod length ids;
            i2 = drawSpy2 rng mod length ids;
            i2' = (if i2 = i1 then (i1 + 1) mod length ids else i2)
        in [ids ! i1, ids ! i2']
      else
        let i = drawSpy rng mod length ids in [ids ! i])"

fun assignRoles :: "string list \<Rightarrow> string list \<Rightarrow> Player list \<Rightarrow> nat
    \<Rightarrow> string option ymap \<Rightarrow> string option ymap" where
  "assignRoles spyIds' shuffledRoles [] ri rs = rs"
| "assignRoles spyIds' shuffledRoles (p # ps) ri rs =
     (if p_id p \<in> set spyIds' then assignRoles spyIds' shuffledRoles ps ri rs
      else assignRoles spyIds' shuffledRoles ps (ri + 1)
             (AList.update (p_id p)
                (if shuffledRoles = [] then None
                 else Some (shuffledRoles ! (ri mod length shuffledRoles))) rs))"

definition startGame :: "Client \<Rightarrow> Rng \<Rightarrow> Location list \<Rightarrow> int \<Rightarrow> Doc \<Rightarrow> Client \<times> Doc" where
  "startGame c rng locations now d =
     (if \<not> isHost c d then (c, d)
      else if length (players d) < 3 then (c, d)
      else
        let pool = startPool rng locations (stateY d) in
        if length pool = 0 then (c, d)
        else
          let poolNames = map l_name pool;
              loc = pool ! (drawLocation rng mod length pool);
              ids = map p_id (players d);
              spyIds' = pickSpies rng (gameMode (stateY d)) ids;
              rs = assignRoles spyIds' (shuffleRoles rng (l_roles loc)) (players d) 0 [];
              nextRound = roundNumber (stateY d) + 1;
              d1 = d\<lparr>stateY := (stateY d)\<lparr>selectedLocations := Some poolNames\<rparr>\<rparr>;
              d2 = d1\<lparr>stateY := (stateY d1)\<lparr>phase := Playing, location := Some (l_name loc),
                       spyId := Some (hd spyIds'), spyIds := Some spyIds', roles := rs,
                       timerEnd := Some (now + duration c * 60 * 1000),
                       roundStartAt := Some now, roundNumber := nextRound,
                       spyChoices := Some [], voteWindowEndsAt := None, tieGuessEndsAt := None,
                       voteAnnouncedRound := None, voteWindowSetRound := None,
                       closedAt := None, winner := None, winReason := None\<rparr>\<rparr>
          in (c\<lparr>processedVotesForRoundRef := None, forceEndRef := None\<rparr>,
              sendChat (resetOpenVoteRequests (resetVotes d2)) (lang c) (GameStarted nextRound) now))"

text \<open>The guards of startGame: the host, at least three players, a location to play.\<close>

definition gameStarts :: "Client \<Rightarrow> Rng \<Rightarrow> Location list \<Rightarrow> Doc \<Rightarrow> bool" where
  "gameStarts c rng locations d =
     (isHost c d \<and> 3 \<le> length (players d) \<and> startPool rng locations (stateY d) \<noteq> [])"

subsection \<open>Joining and the name claims (lines 1024-1102)\<close>

text \<open>
  The search loop of joinNow (lines 1040-1045 and 1051-1057): \<open>while (true)\<close>, so a
  search that does not end has no result. An owner that is missing or the empty string
  is falsy.
\<close>

definition falsyId :: "string option \<Rightarrow> bool" where
  "falsyId owner = (case owner of None \<Rightarrow> True | Some x \<Rightarrow> x = [])"

partial_function (option) findName :: "string ymap \<Rightarrow> string \<Rightarrow> string \<Rightarrow> string \<Rightarrow> nat \<Rightarrow> string option" where
  "findName claims i base attempt n =
     (let owner = map_of claims (nameKey attempt) in
      if falsyId owner \<or> owner = Some i then Some attempt
      else findName claims i base (numbered base (n + 1)) (n + 1))"

declare findName.simps [code]

definition joinNow :: "int \<Rightarrow> string \<Rightarrow> string \<Rightarrow> Doc \<Rightarrow> Doc option" where
  "joinNow now i name d =
     (let base = (if normalizeName name = [] then ''Player'' else normalizeName name) in
      case map_of (playersY d) i of
        Some selfName \<Rightarrow>
          let selfKey = nameKey selfName;
              claims1 = (if map_of (nameClaimsY d) selfKey = Some i \<and> nameKey base \<noteq> selfKey
                         then AList.delete selfKey (nameClaimsY d) else nameClaimsY d)
          in (case findName claims1 i base base 1 of
                None \<Rightarrow> None
              | Some finalName \<Rightarrow>
                  Some (d\<lparr> nameClaimsY := AList.update (nameKey finalName) i claims1,
                          playersY := (if selfName \<noteq> finalName
                                       then AList.update i finalName (playersY d) else playersY d),
                          joinAtY := (if \<not> truthy (map_of (joinAtY d) i)
                                      then AList.update i now (joinAtY d) else joinAtY d) \<rparr>))
      | None \<Rightarrow>
          (case findName (nameClaimsY d) i base base 1 of
             None \<Rightarrow> None
           | Some finalName \<Rightarrow>
               Some (d\<lparr> nameClaimsY :=
                         (if falsyId (map_of (nameClaimsY d) (nameKey finalName))
                          then AList.update (nameKey finalName) i (nameClaimsY d)
                          else nameClaimsY d),
                       playersY := AList.update i finalName (playersY d),
                       joinAtY := AList.update i now (joinAtY d) \<rparr>)))"

text \<open>\<open>[...group].sort(cmp)\<close>: a stable sort by the comparison function.\<close>

fun insertBy :: "('a \<Rightarrow> 'a \<Rightarrow> int) \<Rightarrow> 'a \<Rightarrow> 'a list \<Rightarrow> 'a list" where
  "insertBy cmp x [] = [x]"
| "insertBy cmp x (y # ys) = (if cmp x y < 0 then x # y # ys else y # insertBy cmp x ys)"

definition sortBy :: "('a \<Rightarrow> 'a \<Rightarrow> int) \<Rightarrow> 'a list \<Rightarrow> 'a list" where
  "sortBy cmp xs = foldl (\<lambda>acc x. insertBy cmp x acc) [] xs"

definition indexOf :: "('a \<Rightarrow> bool) \<Rightarrow> 'a list \<Rightarrow> nat option" where
  "indexOf P xs = (if list_ex P xs then Some (length (takeWhile (\<lambda>x. \<not> P x) xs)) else None)"

text \<open>
  \<open>(joinAt[a.id] ?? 0) - (joinAt[b.id] ?? 0) || a.id.localeCompare(b.id)\<close>. The
  comparison of two ids depends on the browser's locale and is a parameter.
\<close>

definition byJoinThenId :: "(string \<Rightarrow> string \<Rightarrow> int) \<Rightarrow> Doc \<Rightarrow> Player \<Rightarrow> Player \<Rightarrow> int" where
  "byJoinThenId localeCompare d a b =
     (let diff = orZero (map_of (joinAtY d) (p_id a)) - orZero (map_of (joinAtY d) (p_id b))
      in if diff \<noteq> 0 then diff else localeCompare (p_id a) (p_id b))"

text \<open>The self-dedupe effect (lines 1083-1102), run by the browser of player \<open>me_id c\<close>.\<close>

definition dedupeEffect :: "(string \<Rightarrow> string \<Rightarrow> int) \<Rightarrow> Client \<Rightarrow> Doc \<Rightarrow> Doc" where
  "dedupeEffect localeCompare c d =
     (if \<not> connectedUI c then d
      else if me_id c = [] then d
      else case map_of (playersY d) (me_id c) of
        None \<Rightarrow> d
      | Some selfName \<Rightarrow>
          let base = baseName selfName;
              grp = filter (\<lambda>p. toLowerCase (baseName (p_name p)) = toLowerCase base) (players d)
          in if length grp \<le> 1 then d
             else
               let sorted = sortBy (byJoinThenId localeCompare d) grp
               in case indexOf (\<lambda>p. p_id p = me_id c) sorted of
                    None \<Rightarrow> d
                  | Some myIndex \<Rightarrow>
                      let desired = (if myIndex = 0 then base else numbered base (myIndex + 1)) in
                      if selfName = desired then d
                      else
                        let oldKey = nameKey selfName;
                            claims1 = (if map_of (nameClaimsY d) oldKey = Some (me_id c)
                                       then AList.delete oldKey (nameClaimsY d) else nameClaimsY d)
                        in d\<lparr> nameClaimsY := AList.update (nameKey desired) (me_id c) claims1,
                              playersY := AList.update (me_id c) desired (playersY d) \<rparr>)"


text \<open>
  The guard of the idle close, and the rooms in which it removes every player: there
  is an activity record, and every player has one.
\<close>

definition idleCloseFires :: "Client \<Rightarrow> int \<Rightarrow> Doc \<Rightarrow> bool" where
  "idleCloseFires c now d =
     (connectedUI c \<and> latestActivity d \<noteq> 0 \<and> now - latestActivity d \<ge> INACTIVITY_MS
      \<and> \<not> truthy (closedAt (stateY d)))"

definition everyPlayerActive :: "Doc \<Rightarrow> bool" where
  "everyPlayerActive d =
     (activityY d \<noteq> [] \<and> list_all (\<lambda>i. map_of (activityY d) i \<noteq> None) (map fst (playersY d)))"


subsection \<open>The tally, stated on the votes\<close>

text \<open>
  The number of votes a tally counts for a target, read off the votes themselves, and
  the two conditions under which an entry is counted (the negations of the two
  \<open>continue\<close> conditions). \<open>tallyStep\<close> is one round of either loop.
\<close>

definition tallyStep :: "(string \<times> VoteVal \<Rightarrow> bool) \<Rightarrow> string \<times> VoteVal \<Rightarrow> nat ymap \<Rightarrow> nat ymap" where
  "tallyStep counted ve counts = (if counted ve then bump counts (entryTarget (snd ve)) else counts)"

definition votesFor :: "(string \<times> VoteVal \<Rightarrow> bool) \<Rightarrow> VoteVal ymap \<Rightarrow> string \<Rightarrow> nat" where
  "votesFor counted vs t = length (filter (\<lambda>ve. counted ve \<and> entryTarget (snd ve) = t) vs)"

definition countedConfirmed :: "string list \<Rightarrow> string \<times> VoteVal \<Rightarrow> bool" where
  "countedConfirmed eligibleIds ve =
     (fst ve \<in> set eligibleIds \<and> entryTarget (snd ve) \<noteq> [] \<and> entryConfirmed (snd ve))"

definition countedWindow :: "string list \<Rightarrow> string \<times> VoteVal \<Rightarrow> bool" where
  "countedWindow eligibleIds ve =
     (fst ve \<in> set eligibleIds \<and> entryTarget (snd ve) \<noteq> [] \<and> entryConfirmed (snd ve)
      \<and> entryTarget (snd ve) \<in> set eligibleIds)"

definition got :: "nat ymap \<Rightarrow> string \<Rightarrow> nat" where
  "got counts t = (case map_of counts t of None \<Rightarrow> 0 | Some n \<Rightarrow> n)"

text \<open>What a finished tally holds, for either loop.\<close>

definition tallied :: "(string \<Rightarrow> nat) \<Rightarrow> nat ymap \<Rightarrow> bool" where
  "tallied n counts =
     (distinct (map fst counts) \<and> (\<forall>t k. (t, k) \<in> set counts \<longleftrightarrow> k = n t \<and> 0 < k))"

definition tiedAtTop :: "(string \<Rightarrow> nat) \<Rightarrow> bool" where
  "tiedAtTop n = (\<exists>A B. A \<noteq> B \<and> 0 < n A \<and> n A = n B \<and> (\<forall>t. n t \<le> n A))"

definition topVoted :: "(string \<Rightarrow> nat) \<Rightarrow> string \<Rightarrow> bool" where
  "topVoted n t = (0 < n t \<and> (\<forall>u. n u \<le> n t))"


text \<open>The guards of the two effects, and the votes each effect counts for a target.\<close>

definition everyoneConfirmedFires :: "Client \<Rightarrow> Doc \<Rightarrow> bool" where
  "everyoneConfirmedFires c d =
     (isHost c d \<and> phase (stateY d) = Voting \<and> everyoneConfirmed d
      \<and> processedVotesForRoundRef c \<noteq> Some (orZero (roundStartAt (stateY d))))"

definition voteWindowFires :: "Client \<Rightarrow> int \<Rightarrow> Doc \<Rightarrow> bool" where
  "voteWindowFires c now d =
     (isHost c d \<and> phase (stateY d) = Voting \<and> truthy (voteWindowEndsAt (stateY d))
      \<and> orZero (voteWindowEndsAt (stateY d)) \<le> now)"

definition confirmedVotesFor :: "Doc \<Rightarrow> string \<Rightarrow> nat" where
  "confirmedVotesFor d = votesFor (countedConfirmed (map p_id (eligiblePlayers d))) (votes d)"

definition windowVotesFor :: "Doc \<Rightarrow> string \<Rightarrow> nat" where
  "windowVotesFor d = votesFor (countedWindow (map p_id (eligiblePlayers d))) (votes d)"

text \<open>
  \<open>windowVotesFor\<close> is the tally of confirmed votes of eligible voters for eligible targets.
  In a room where \<open>votesNameEligible\<close> holds, every vote the everyone-confirmed loop counts
  names an eligible player.
\<close>

definition votesNameEligible :: "Doc \<Rightarrow> bool" where
  "votesNameEligible d =
     list_all (\<lambda>ve. countedConfirmed (map p_id (eligiblePlayers d)) ve
                 \<longrightarrow> entryTarget (snd ve) \<in> set (map p_id (eligiblePlayers d))) (votes d)"


subsection \<open>Concrete rooms\<close>

text \<open>
  Four players who all joined before the round started; \<open>a\<close> is the host and the spy.
  In \<open>tieRoom\<close> the confirmed votes are two for \<open>a\<close> and two for \<open>b\<close>. In \<open>caughtRoom\<close>
  three of the four vote for the spy. \<open>quietRoom\<close> is \<open>tieRoom\<close> with an activity record
  for \<open>a\<close> only. In \<open>departedRoom\<close> three votes were confirmed for
  a fifth player \<open>d\<close> who has since left the room (removePlayer deleted the record, the
  join time and the own vote of \<open>d\<close>), and \<open>b\<close> votes for the spy.
  In \<open>strayTieRoom\<close> two of the four voted for the departed \<open>d\<close>, and \<open>a\<close> and \<open>b\<close> have
  one vote each. \<open>strayVoteRoom\<close> has a fifth player \<open>f\<close>: two vote for the spy \<open>a\<close> and
  three for the departed \<open>d\<close>. In \<open>silentRoom\<close> no vote is confirmed.
\<close>

definition hostClient :: Client where
  "hostClient = \<lparr> me_id = ''a'', lang = EN, connectedUI = True, duration = 8,
     processedVotesForRoundRef = None, tieNoGuessResolvedRoundRef = None, forceEndRef = None \<rparr>"

definition votingState :: RoomState where
  "votingState = DEFAULT_STATE \<lparr> phase := Voting, hostId := Some ''a'', createdAt := Some 500,
     roundNumber := 1, roundStartAt := Some 1000, timerEnd := Some 31000,
     voteWindowEndsAt := Some 31000, voteAnnouncedRound := Some 1000,
     voteWindowSetRound := Some 1000, location := Some ''Beach'', spyId := Some ''a'',
     spyIds := Some [''a''], selectedLocations := Some [''Beach''] \<rparr>"

definition votingRoom :: "string ymap \<Rightarrow> VoteVal ymap \<Rightarrow> Doc" where
  "votingRoom ps vs = emptyDoc \<lparr> playersY := ps, stateY := votingState, votesY := vs,
     joinAtY := map (\<lambda>(i, n). (i, 100)) ps, activityY := map (\<lambda>(i, n). (i, 900)) ps \<rparr>"

definition tieRoom :: Doc where
  "tieRoom = votingRoom
     [(''a'', ''Ann''), (''b'', ''Bob''), (''c'', ''Cat''), (''e'', ''Eve'')]
     [(''a'', VObj ''b'' (Some True)), (''c'', VObj ''b'' (Some True)),
      (''b'', VObj ''a'' (Some True)), (''e'', VObj ''a'' (Some True))]"

definition departedRoom :: Doc where
  "departedRoom = votingRoom
     [(''a'', ''Ann''), (''b'', ''Bob''), (''c'', ''Cat''), (''e'', ''Eve'')]
     [(''b'', VObj ''a'' (Some True)), (''c'', VObj ''d'' (Some True)),
      (''e'', VObj ''d'' (Some True)), (''a'', VObj ''d'' (Some True))]"


definition quietRoom :: Doc where
  "quietRoom = tieRoom \<lparr> activityY := [(''a'', 900)] \<rparr>"

definition caughtRoom :: Doc where
  "caughtRoom = votingRoom
     [(''a'', ''Ann''), (''b'', ''Bob''), (''c'', ''Cat''), (''e'', ''Eve'')]
     [(''b'', VObj ''a'' (Some True)), (''c'', VObj ''a'' (Some True)),
      (''e'', VObj ''a'' (Some True)), (''a'', VObj ''b'' (Some True))]"

definition strayTieRoom :: Doc where
  "strayTieRoom = votingRoom
     [(''a'', ''Ann''), (''b'', ''Bob''), (''c'', ''Cat''), (''e'', ''Eve'')]
     [(''b'', VObj ''a'' (Some True)), (''a'', VObj ''b'' (Some True)),
      (''c'', VObj ''d'' (Some True)), (''e'', VObj ''d'' (Some True))]"

definition strayVoteRoom :: Doc where
  "strayVoteRoom = votingRoom
     [(''a'', ''Ann''), (''b'', ''Bob''), (''c'', ''Cat''), (''e'', ''Eve''), (''f'', ''Fay'')]
     [(''b'', VObj ''a'' (Some True)), (''c'', VObj ''a'' (Some True)),
      (''e'', VObj ''d'' (Some True)), (''f'', VObj ''d'' (Some True)),
      (''a'', VObj ''d'' (Some True))]"

definition silentRoom :: Doc where
  "silentRoom = votingRoom
     [(''a'', ''Ann''), (''b'', ''Bob''), (''c'', ''Cat''), (''e'', ''Eve'')]
     [(''b'', VObj ''a'' None), (''c'', VStr ''a'')]"

definition tieGuessRoom :: Doc where
  "tieGuessRoom = snd (everyoneConfirmedEffect hostClient 20000 tieRoom)"


text \<open>
  A lobby of the given players with host \<open>a\<close>, the fallback catalogue of the program,
  and one fixed outcome of the random choices: both spy draws give index 3 of 8.
\<close>

definition FALLBACK_EN :: "Location list" where
  "FALLBACK_EN =
     [\<lparr>l_name = ''Hospital'', l_roles = [''Doctor'', ''Nurse'', ''Pharmacist'', ''Orderly'', ''Family'']\<rparr>,
      \<lparr>l_name = ''Beach'', l_roles = [''Lifeguard'', ''Tourist'', ''Ice-cream vendor'', ''Surfer'']\<rparr>,
      \<lparr>l_name = ''Airport'', l_roles = [''Pilot'', ''Flight attendant'', ''Check-in agent'', ''Passenger'', ''Security'']\<rparr>]"

definition fixedRng :: Rng where
  "fixedRng = \<lparr> shuffleLocations = rev, drawLocation = 4, drawSpy1 = 11, drawSpy2 = 3,
     drawSpy = 5, shuffleRoles = rev \<rparr>"

definition lobbyRoom :: "GameMode \<Rightarrow> string list \<Rightarrow> Doc" where
  "lobbyRoom mode ids = emptyDoc \<lparr> playersY := map (\<lambda>i. (i, ''P-'' @ i)) ids,
     stateY := DEFAULT_STATE \<lparr> hostId := Some ''a'', gameMode := mode, createdAt := Some 500 \<rparr>,
     joinAtY := map (\<lambda>i. (i, 100)) ids, activityY := map (\<lambda>i. (i, 900)) ids \<rparr>"

definition eightIds :: "string list" where
  "eightIds = [''a'', ''b'', ''c'', ''d'', ''e'', ''f'', ''g'', ''h'']"


text \<open>A browser that has joined as player \<open>i\<close>, and joins run one after the other.\<close>

definition member :: "string \<Rightarrow> Client" where
  "member i = \<lparr> me_id = i, lang = EN, connectedUI = True, duration = 8,
     processedVotesForRoundRef = None, tieNoGuessResolvedRoundRef = None, forceEndRef = None \<rparr>"

definition joinAll :: "(int \<times> string \<times> string) list \<Rightarrow> Doc \<Rightarrow> Doc option" where
  "joinAll js d = fold (\<lambda>(now, i, name) acc. case acc of None \<Rightarrow> None | Some d' \<Rightarrow> joinNow now i name d') js (Some d)"

text \<open>
  Browsers with the identifiers and join times \<open>tis\<close> join one after the other, each asking for
  the same name; \<open>joinedRoom b tis\<close> is the room in which the \<open>j\<close>-th of them holds the \<open>j\<close>-th
  name of \<open>b\<close>.
\<close>

definition sameNameJoins :: "string \<Rightarrow> (int \<times> string) list \<Rightarrow> (int \<times> string \<times> string) list" where
  "sameNameJoins name tis = map (\<lambda>(t, i). (t, i, name)) tis"

definition joinedRoom :: "string \<Rightarrow> (int \<times> string) list \<Rightarrow> Doc" where
  "joinedRoom b tis = emptyDoc \<lparr>
     playersY := map (\<lambda>j. (snd (tis ! j), nthName b j)) [0 ..< length tis],
     joinAtY := map (\<lambda>j. (snd (tis ! j), fst (tis ! j))) [0 ..< length tis],
     nameClaimsY := map (\<lambda>j. (nameKey (nthName b j), snd (tis ! j))) [0 ..< length tis] \<rparr>"

text \<open>
  Three browsers join an empty room one after the other, each asking for the same name,
  and then every browser runs its re-derivation, in the order of joining, twice.
\<close>

definition threeJoined :: "string \<Rightarrow> Doc option" where
  "threeJoined name = joinAll (sameNameJoins name [(1, ''a''), (2, ''b''), (3, ''c'')]) emptyDoc"

definition joinedDoc :: "string ymap \<Rightarrow> string ymap \<Rightarrow> Doc" where
  "joinedDoc ps claims = emptyDoc \<lparr> playersY := ps,
     joinAtY := [(''a'', 1), (''b'', 2), (''c'', 3)], nameClaimsY := claims \<rparr>"

definition rederiveAll :: "(string \<Rightarrow> string \<Rightarrow> int) \<Rightarrow> Doc \<Rightarrow> Doc" where
  "rederiveAll localeCompare d =
     fold (\<lambda>i acc. dedupeEffect localeCompare (member i) acc) [''a'', ''b'', ''c''] d"


section \<open>Votes\<close>

lemma vote_entry:
  "map_of (votesY (vote d v t)) v =
     (if existingConfirmed (map_of (votesY d) v) then map_of (votesY d) v
      else if existingTarget (map_of (votesY d) v) = Some t then None
      else Some (VObj t (Some False)))"
  by (simp add: vote_def Let_def update_conv' delete_conv')

lemma vote_other:
  "u \<noteq> v \<Longrightarrow> map_of (votesY (vote d v t)) u = map_of (votesY d) u"
  by (simp add: vote_def Let_def update_conv' delete_conv')

lemma confirmVote_other:
  "u \<noteq> v \<Longrightarrow> map_of (votesY (confirmVote d v)) u = map_of (votesY d) u"
  by (simp add: confirmVote_def update_conv' split: option.splits VoteVal.splits)

lemma vote_confirmed_noop:
  "map_of (votesY d) v = Some (VObj t' (Some True)) \<Longrightarrow> vote d v t = d"
  by (simp add: vote_def existingConfirmed_def)

lemma confirmVote_confirmed_noop:
  "map_of (votesY d) v = Some (VObj t' (Some True)) \<Longrightarrow> confirmVote d v = d"
  by (simp add: confirmVote_def update_triv)

lemma applyCall_keeps_confirmed:
  assumes "map_of (votesY d) v = Some (VObj t' (Some True))"
  shows "map_of (votesY (applyCall c d)) v = Some (VObj t' (Some True))"
proof (cases c)
  case (CallVote u t)
  show ?thesis
  proof (cases "u = v")
    case True
    with assms CallVote show ?thesis by (simp add: vote_confirmed_noop)
  next
    case False
    with assms CallVote show ?thesis by (simp add: vote_other)
  qed
next
  case (CallConfirm u)
  show ?thesis
  proof (cases "u = v")
    case True
    with assms CallConfirm show ?thesis by (simp add: confirmVote_confirmed_noop)
  next
    case False
    with assms CallConfirm show ?thesis by (simp add: confirmVote_other)
  qed
qed

lemma applyCalls_keeps_confirmed:
  "map_of (votesY d) v = Some (VObj t' (Some True)) \<Longrightarrow>
   map_of (votesY (applyCalls cs d)) v = Some (VObj t' (Some True))"
  unfolding applyCalls_def
  by (induction cs arbitrary: d) (simp_all add: applyCall_keeps_confirmed)

text \<open>
  C6. The vote operation for voter \<open>v\<close> and target \<open>t\<close>: with no recorded vote, an
  unconfirmed vote for \<open>t\<close> is recorded; an existing unconfirmed vote for \<open>t\<close> is
  deleted; an existing unconfirmed vote for another player is replaced by an unconfirmed
  vote for \<open>t\<close>; an existing confirmed vote is left as it is by this call (the whole
  document is unchanged) and by every later sequence of vote and confirm calls, as long
  as the votes are not reset. No other voter's entry is touched.
\<close>

theorem C6_vote_semantics:
  "(map_of (votesY d) v = None \<longrightarrow>
       map_of (votesY (vote d v t)) v = Some (VObj t (Some False)))
   \<and> (\<not> existingConfirmed (map_of (votesY d) v) \<and> existingTarget (map_of (votesY d) v) = Some t \<longrightarrow>
       map_of (votesY (vote d v t)) v = None)
   \<and> (\<not> existingConfirmed (map_of (votesY d) v) \<and> existingTarget (map_of (votesY d) v) = Some t'
        \<and> t' \<noteq> t \<longrightarrow>
       map_of (votesY (vote d v t)) v = Some (VObj t (Some False)))
   \<and> (existingConfirmed (map_of (votesY d) v) \<longrightarrow>
       vote d v t = d
       \<and> map_of (votesY (applyCalls cs (vote d v t))) v = map_of (votesY d) v)
   \<and> (\<forall>u. u \<noteq> v \<longrightarrow> map_of (votesY (vote d v t)) u = map_of (votesY d) u)"
proof -
  have conf: "vote d v t = d
      \<and> map_of (votesY (applyCalls cs (vote d v t))) v = map_of (votesY d) v"
    if h: "existingConfirmed (map_of (votesY d) v)"
  proof -
    from h obtain t0 where e: "map_of (votesY d) v = Some (VObj t0 (Some True))"
      by (auto simp: existingConfirmed_def split: option.splits VoteVal.splits)
    then show ?thesis
      by (simp add: vote_confirmed_noop applyCalls_keeps_confirmed)
  qed
  have fresh: "map_of (votesY d) v = None \<longrightarrow>
      map_of (votesY (vote d v t)) v = Some (VObj t (Some False))"
    by (simp add: vote_entry existingConfirmed_def existingTarget_def)
  have same: "\<not> existingConfirmed (map_of (votesY d) v)
      \<and> existingTarget (map_of (votesY d) v) = Some t \<longrightarrow>
      map_of (votesY (vote d v t)) v = None"
    by (simp add: vote_entry)
  have other: "\<not> existingConfirmed (map_of (votesY d) v)
      \<and> existingTarget (map_of (votesY d) v) = Some t' \<and> t' \<noteq> t \<longrightarrow>
      map_of (votesY (vote d v t)) v = Some (VObj t (Some False))"
    by (simp add: vote_entry)
  have frame: "\<forall>u. u \<noteq> v \<longrightarrow> map_of (votesY (vote d v t)) u = map_of (votesY d) u"
    by (simp add: vote_other)
  from fresh same other conf frame show ?thesis by blast
qed

theorem C6_vote_semantics_witness:
  "map_of (votesY emptyDoc) ''a'' = None
   \<and> map_of (votesY (vote emptyDoc ''a'' ''b'')) ''a'' = Some (VObj ''b'' (Some False))
   \<and> map_of (votesY (vote (vote emptyDoc ''a'' ''b'') ''a'' ''b'')) ''a'' = None
   \<and> map_of (votesY (vote (vote emptyDoc ''a'' ''b'') ''a'' ''c'')) ''a''
         = Some (VObj ''c'' (Some False))
   \<and> existingConfirmed (map_of (votesY (confirmVote (vote emptyDoc ''a'' ''b'') ''a'')) ''a'')
   \<and> vote (confirmVote (vote emptyDoc ''a'' ''b'') ''a'') ''a'' ''c''
         = confirmVote (vote emptyDoc ''a'' ''b'') ''a''
   \<and> map_of (votesY (applyCalls [CallVote ''a'' ''b'', CallConfirm ''a'', CallVote ''c'' ''a'']
           (vote (confirmVote (vote emptyDoc ''a'' ''b'') ''a'') ''a'' ''c''))) ''a''
         = Some (VObj ''b'' (Some True))"
proof -
  define d1 where "d1 = vote emptyDoc ''a'' ''b''"
  define d2 where "d2 = confirmVote d1 ''a''"
  have e0: "map_of (votesY emptyDoc) ''a'' = None"
    by (simp add: emptyDoc_def)
  have e1: "map_of (votesY d1) ''a'' = Some (VObj ''b'' (Some False))"
    by (simp add: d1_def vote_def emptyDoc_def existingConfirmed_def existingTarget_def)
  have e2: "map_of (votesY d2) ''a'' = Some (VObj ''b'' (Some True))"
    using e1 by (simp add: d2_def confirmVote_def update_conv')
  have u1: "\<not> existingConfirmed (map_of (votesY d1) ''a'')"
    and t1: "existingTarget (map_of (votesY d1) ''a'') = Some ''b''"
    using e1 by (simp_all add: existingConfirmed_def existingTarget_def)
  have c2: "existingConfirmed (map_of (votesY d2) ''a'')"
    using e2 by (simp add: existingConfirmed_def)
  have fresh: "map_of (votesY (vote emptyDoc ''a'' ''b'')) ''a'' = Some (VObj ''b'' (Some False))"
    using C6_vote_semantics [where d = emptyDoc and v = "''a''" and t = "''b''"] e0 by blast
  have toggle: "map_of (votesY (vote d1 ''a'' ''b'')) ''a'' = None"
    using C6_vote_semantics [where d = d1 and v = "''a''" and t = "''b''"] u1 t1 by blast
  have switch: "map_of (votesY (vote d1 ''a'' ''c'')) ''a'' = Some (VObj ''c'' (Some False))"
    using C6_vote_semantics [where d = d1 and v = "''a''" and t = "''c''" and t' = "''b''"] u1 t1
    by simp
  have locked: "vote d2 ''a'' ''c'' = d2
      \<and> map_of (votesY (applyCalls [CallVote ''a'' ''b'', CallConfirm ''a'', CallVote ''c'' ''a'']
            (vote d2 ''a'' ''c''))) ''a'' = map_of (votesY d2) ''a''"
    using C6_vote_semantics [where d = d2 and v = "''a''" and t = "''c''"
      and cs = "[CallVote ''a'' ''b'', CallConfirm ''a'', CallVote ''c'' ''a'']"] c2
    by blast
  from locked have l1: "vote d2 ''a'' ''c'' = d2"
    by (rule conjunct1)
  from locked have "map_of (votesY (applyCalls
      [CallVote ''a'' ''b'', CallConfirm ''a'', CallVote ''c'' ''a''] (vote d2 ''a'' ''c''))) ''a''
      = map_of (votesY d2) ''a''"
    by (rule conjunct2)
  then have l2: "map_of (votesY (applyCalls
      [CallVote ''a'' ''b'', CallConfirm ''a'', CallVote ''c'' ''a''] (vote d2 ''a'' ''c''))) ''a''
      = Some (VObj ''b'' (Some True))"
    by (simp only: e2)
  show ?thesis
    unfolding d1_def [symmetric] d2_def [symmetric]
    by (intro conjI e0 fresh [folded d1_def] toggle switch c2 l1 l2)
qed

text \<open>
  C10. Confirming for a voter who has no recorded vote entry leaves the whole document
  (the votes and everything else) as it was; and a confirm call never creates an entry:
  a voter has an entry afterwards exactly when it had one before.
\<close>

theorem C10_confirm_without_entry:
  "(map_of (votesY d) v = None \<longrightarrow> confirmVote d v = d)
   \<and> (map_of (votesY (confirmVote d v)) u = None \<longleftrightarrow> map_of (votesY d) u = None)"
  by (auto simp: confirmVote_def update_conv' split: option.splits VoteVal.splits if_splits)

theorem C10_confirm_without_entry_witness:
  "map_of (votesY (vote emptyDoc ''a'' ''b'')) ''c'' = None
   \<and> confirmVote (vote emptyDoc ''a'' ''b'') ''c'' = vote emptyDoc ''a'' ''b''
   \<and> map_of (votesY (confirmVote (vote emptyDoc ''a'' ''b'') ''c'')) ''c'' = None"
proof -
  have e: "map_of (votesY (vote emptyDoc ''a'' ''b'')) ''c'' = None"
    by (simp add: vote_def emptyDoc_def existingConfirmed_def existingTarget_def)
  from C10_confirm_without_entry [of "vote emptyDoc ''a'' ''b''" "''c''" "''c''"] e
  show ?thesis by simp
qed

section \<open>The tally that ends the voting phase\<close>

lemma countConfirmed_fold:
  "countConfirmed el vs = fold (tallyStep (countedConfirmed el)) vs []"
  unfolding countConfirmed_def
  by (rule arg_cong [where f = "\<lambda>f. fold f vs []"])
     (auto simp: tallyStep_def countedConfirmed_def fun_eq_iff)

lemma countWindow_fold:
  "countWindow el vs = fold (tallyStep (countedWindow el)) vs []"
  unfolding countWindow_def
  by (rule arg_cong [where f = "\<lambda>f. fold f vs []"])
     (auto simp: tallyStep_def countedWindow_def fun_eq_iff)

lemma got_bump: "got (bump counts u) t = (if t = u then got counts u + 1 else got counts t)"
  by (simp add: got_def bump_def update_conv')

lemma distinct_bump: "distinct (map fst counts) \<Longrightarrow> distinct (map fst (bump counts u))"
  by (simp add: bump_def distinct_update)

lemma positive_bump:
  "\<forall>(k, n) \<in> set counts. 0 < n \<Longrightarrow> \<forall>(k, n) \<in> set (bump counts u). 0 < n"
  unfolding bump_def
  by (induction counts) (auto split: if_splits)

lemma fold_tally:
  "distinct (map fst acc) \<Longrightarrow> \<forall>(k, n) \<in> set acc. 0 < n \<Longrightarrow>
   distinct (map fst (fold (tallyStep counted) vs acc))
   \<and> (\<forall>(k, n) \<in> set (fold (tallyStep counted) vs acc). 0 < n)
   \<and> (\<forall>t. got (fold (tallyStep counted) vs acc) t = got acc t + votesFor counted vs t)"
proof (induction vs arbitrary: acc)
  case Nil
  then show ?case by (simp add: votesFor_def)
next
  case (Cons ve vs)
  let ?acc = "tallyStep counted ve acc"
  have d: "distinct (map fst ?acc)"
    using Cons.prems(1) by (simp add: tallyStep_def distinct_bump)
  have p: "\<forall>(k, n) \<in> set ?acc. 0 < n"
    using Cons.prems(2) positive_bump [of acc] by (simp add: tallyStep_def)
  have g: "got ?acc t + votesFor counted vs t = got acc t + votesFor counted (ve # vs) t" for t
    by (simp add: tallyStep_def got_bump votesFor_def)
  from Cons.IH [OF d p] g show ?case by simp
qed


lemma fold_tallied: "tallied (votesFor counted vs) (fold (tallyStep counted) vs [])"
proof -
  let ?cs = "fold (tallyStep counted) vs []"
  have f: "distinct (map fst ?cs)" "\<forall>(k, n) \<in> set ?cs. 0 < n"
    "\<And>t. got ?cs t = votesFor counted vs t"
    using fold_tally [of "[]" counted vs] by (simp_all add: got_def)
  have "(t, k) \<in> set ?cs \<longleftrightarrow> k = votesFor counted vs t \<and> 0 < k" for t k
  proof
    assume m: "(t, k) \<in> set ?cs"
    with f(1) have "map_of ?cs t = Some k" by simp
    then have "got ?cs t = k" by (simp add: got_def)
    with f(2,3) m show "k = votesFor counted vs t \<and> 0 < k" by auto
  next
    assume h: "k = votesFor counted vs t \<and> 0 < k"
    with f(3) have "got ?cs t = k" "0 < k" by simp_all
    then obtain k' where "map_of ?cs t = Some k'" "k' = k"
      by (auto simp: got_def split: option.splits)
    then show "(t, k) \<in> set ?cs" by (auto dest: map_of_SomeD)
  qed
  with f(1) show ?thesis by (simp add: tallied_def)
qed

lemma tallied_max_ge: "tallied n counts \<Longrightarrow> n t \<le> maxCount counts"
proof (cases "n t = 0")
  case True then show ?thesis by simp
next
  case False
  assume t: "tallied n counts"
  with False have m: "(t, n t) \<in> set counts" by (simp add: tallied_def)
  then have "n t \<in> set (map snd counts)" by force
  then have "n t \<le> Max (set (map snd counts))" by (intro Max_ge) auto
  with m show ?thesis by (auto simp: maxCount_def Let_def)
qed

lemma tallied_max_attained:
  assumes "tallied n counts" "counts \<noteq> []"
  shows "\<exists>t. n t = maxCount counts \<and> 0 < n t"
proof -
  from assms(2) have "Max (set (map snd counts)) \<in> set (map snd counts)"
    by (intro Max_in) auto
  moreover from assms(2) have "maxCount counts = Max (set (map snd counts))"
    by (simp add: maxCount_def Let_def)
  ultimately have "maxCount counts \<in> snd ` set counts" by simp
  then obtain t where "(t, maxCount counts) \<in> set counts" by force
  with assms(1) show ?thesis by (auto simp: tallied_def)
qed

lemma tallied_top: "tallied n counts \<Longrightarrow> t \<in> set (topTargets counts) \<longleftrightarrow> topVoted n t"
proof
  assume t: "tallied n counts" and m: "t \<in> set (topTargets counts)"
  then have "(t, maxCount counts) \<in> set counts" by (auto simp: topTargets_def)
  with t have "n t = maxCount counts" "0 < n t" by (auto simp: tallied_def)
  with tallied_max_ge [OF t] show "topVoted n t" by (simp add: topVoted_def)
next
  assume t: "tallied n counts" and v: "topVoted n t"
  then have m: "(t, n t) \<in> set counts" by (simp add: tallied_def topVoted_def)
  then have "counts \<noteq> []" by auto
  from tallied_max_attained [OF t this] obtain u where "n u = maxCount counts" by blast
  moreover from v have "n u \<le> n t" by (simp add: topVoted_def)
  ultimately have "n t = maxCount counts"
    using tallied_max_ge [OF t, of t] by simp
  with m show "t \<in> set (topTargets counts)" by (force simp: topTargets_def)
qed

lemma tallied_distinct_top: "tallied n counts \<Longrightarrow> distinct (topTargets counts)"
  by (simp add: tallied_def topTargets_def distinct_map_filter)

lemma tallied_isTie: "tallied n counts \<Longrightarrow> isTie counts \<longleftrightarrow> tiedAtTop n"
proof
  assume t: "tallied n counts" and tie: "isTie counts"
  then obtain A B rest where tt: "topTargets counts = A # B # rest"
    by (cases "topTargets counts"; cases "tl (topTargets counts)") (auto simp: isTie_def)
  with tallied_distinct_top [OF t] have "A \<noteq> B" by auto
  moreover from tt tallied_top [OF t] have "topVoted n A" "topVoted n B"
    by (metis list.set_intros)+
  ultimately show "tiedAtTop n"
    unfolding tiedAtTop_def topVoted_def by (metis le_antisym)
next
  assume t: "tallied n counts" and "tiedAtTop n"
  then obtain A B where ab: "A \<noteq> B" "topVoted n A" "topVoted n B"
    unfolding tiedAtTop_def topVoted_def by metis
  with tallied_top [OF t] have "A \<in> set (topTargets counts)" "B \<in> set (topTargets counts)"
    by simp_all
  with ab(1) have "2 \<le> length (topTargets counts)"
    by (cases "topTargets counts"; cases "tl (topTargets counts)") auto
  moreover from ab(2) tallied_max_ge [OF t, of A] have "0 < maxCount counts"
    by (simp add: topVoted_def)
  ultimately show "isTie counts" by (simp add: isTie_def)
qed


lemma stateY_sendChat [simp]: "stateY (sendChat d l t ts) = stateY d"
  by (simp add: sendChat_def)

lemma stateY_postVoteSummaryChat [simp]:
  "stateY (postVoteSummaryChat c now snap tie w d) = stateY d"
  by (simp add: postVoteSummaryChat_def Let_def split: option.splits Winner.splits)

lemma tallied_confirmed:
  "tallied (confirmedVotesFor d) (countConfirmed (map p_id (eligiblePlayers d)) (votes d))"
  by (simp add: confirmedVotesFor_def countConfirmed_fold fold_tallied)

lemma tallied_window:
  "tallied (windowVotesFor d) (countWindow (map p_id (eligiblePlayers d)) (votes d))"
  by (simp add: windowVotesFor_def countWindow_fold fold_tallied)

lemma confirmedVotesFor_empty_target [simp]: "confirmedVotesFor d [] = 0"
  by (simp add: confirmedVotesFor_def votesFor_def countedConfirmed_def)

lemma windowVotesFor_empty_target [simp]: "windowVotesFor d [] = 0"
  by (simp add: windowVotesFor_def votesFor_def countedWindow_def)

lemma tallied_hit:
  assumes t: "tallied n counts" and e: "n [] = 0" and nt: "\<not> isTie counts"
  shows "isSpyHit s counts \<longleftrightarrow> (\<exists>t. topVoted n t \<and> t \<in> set (spies s))"
proof
  assume "isSpyHit s counts"
  then obtain g where g: "guessedId counts = Some g" "g \<in> set (spies s)"
    by (auto simp: isSpyHit_def split: option.splits)
  then have "g \<in> set (topTargets counts)"
    by (auto simp: guessedId_def split: list.splits if_splits)
  with tallied_top [OF t] g(2) show "\<exists>t. topVoted n t \<and> t \<in> set (spies s)" by blast
next
  assume "\<exists>t. topVoted n t \<and> t \<in> set (spies s)"
  then obtain u where u: "topVoted n u" "u \<in> set (spies s)" by blast
  with tallied_top [OF t] have m: "u \<in> set (topTargets counts)" by simp
  from u(1) tallied_max_ge [OF t, of u] have "0 < maxCount counts"
    by (simp add: topVoted_def)
  with nt have "length (topTargets counts) < 2" by (simp add: isTie_def)
  with m have "topTargets counts = [u]"
    by (cases "topTargets counts"; cases "tl (topTargets counts)") auto
  moreover from u(1) e have "u \<noteq> []" by (auto simp: topVoted_def)
  ultimately show "isSpyHit s counts" using u(2) by (simp add: isSpyHit_def guessedId_def)
qed

lemma everyoneConfirmedEffect_state:
  assumes "everyoneConfirmedFires c d"
  shows "stateY (snd (everyoneConfirmedEffect c now d)) =
     (if tiedAtTop (confirmedVotesFor d)
      then (stateY d)\<lparr>phase := TieGuess, voteWindowEndsAt := None,
             tieGuessEndsAt := Some (now + 20000), timerEnd := Some (now + 20000)\<rparr>
      else (stateY d)\<lparr>phase := Revealed,
             winner := Some (if \<exists>t. topVoted (confirmedVotesFor d) t \<and> t \<in> set (spies (stateY d))
                             then Civ else Spy),
             winReason := Some (lang c,
                if \<exists>t. topVoted (confirmedVotesFor d) t \<and> t \<in> set (spies (stateY d))
                then VotedSpyCorrectly else VotedWrongPerson)\<rparr>)"
proof -
  let ?counts = "countConfirmed (map p_id (eligiblePlayers d)) (votes d)"
  note t = tallied_confirmed [of d]
  show ?thesis
  proof (cases "isTie ?counts")
    case True
    with tallied_isTie [OF t] assms show ?thesis
      by (simp add: everyoneConfirmedEffect_def everyoneConfirmedFires_def Let_def)
  next
    case False
    with tallied_isTie [OF t] tallied_hit [OF t _ False, of "stateY d"] assms show ?thesis
      by (simp add: everyoneConfirmedEffect_def everyoneConfirmedFires_def Let_def)
  qed
qed

lemma voteWindowEffect_state:
  assumes "voteWindowFires c now d"
  shows "stateY (voteWindowEffect c now d) =
     (if tiedAtTop (windowVotesFor d)
      then (stateY d)\<lparr>phase := TieGuess, voteWindowEndsAt := None,
             tieGuessEndsAt := Some (now + 20000), timerEnd := Some (now + 20000)\<rparr>
      else (stateY d)\<lparr>phase := Revealed,
             winner := Some (if \<exists>t. topVoted (windowVotesFor d) t \<and> t \<in> set (spies (stateY d))
                             then Civ else Spy),
             winReason := Some (lang c,
                if \<exists>t. topVoted (windowVotesFor d) t \<and> t \<in> set (spies (stateY d))
                then VotedSpyCorrectly else VotedWrongPerson)\<rparr>)"
proof -
  let ?counts = "countWindow (map p_id (eligiblePlayers d)) (votes d)"
  note t = tallied_window [of d]
  from assms have n: "\<not> now < orZero (voteWindowEndsAt (stateY d))"
    by (simp add: voteWindowFires_def)
  show ?thesis
  proof (cases "isTie ?counts")
    case True
    with tallied_isTie [OF t] assms n show ?thesis
      by (simp add: voteWindowEffect_def voteWindowFires_def Let_def)
  next
    case False
    with tallied_isTie [OF t] tallied_hit [OF t _ False, of "stateY d"] assms n show ?thesis
      by (simp add: voteWindowEffect_def voteWindowFires_def Let_def)
  qed
qed


text \<open>
  The two loops count the same votes in a room where every confirmed vote of an eligible
  voter names an eligible player.
\<close>

lemma votesNameEligible_same_count:
  assumes "votesNameEligible d"
  shows "confirmedVotesFor d = windowVotesFor d"
proof
  fix t
  have "filter (\<lambda>ve. countedConfirmed (map p_id (eligiblePlayers d)) ve \<and> entryTarget (snd ve) = t)
          (votes d)
      = filter (\<lambda>ve. countedWindow (map p_id (eligiblePlayers d)) ve \<and> entryTarget (snd ve) = t)
          (votes d)"
    using assms
    by (intro filter_cong refl)
       (auto simp: votesNameEligible_def list_all_iff countedConfirmed_def countedWindow_def)
  then show "confirmedVotesFor d t = windowVotesFor d t"
    by (simp add: confirmedVotesFor_def windowVotesFor_def votesFor_def)
qed

text \<open>
  What holds of a tie. The tally is the one of confirmed votes of eligible voters for eligible
  targets. When at least two distinct targets share its highest count, that count being
  positive, the window effect moves the phase to tie-guess and sets \<open>tieGuessEndsAt\<close> to the
  current time plus 20 seconds; the everyone-confirmed effect does so in a room where every
  counted vote names an eligible player. In \<open>tieRoom\<close>, with two confirmed votes each for
  \<open>a\<close> and \<open>b\<close> and none elsewhere, both effects lead to tie-guess.
\<close>

lemma tie_goes_to_tie_guess:
  "(voteWindowFires c now d \<and> tiedAtTop (windowVotesFor d) \<longrightarrow>
      phase (stateY (voteWindowEffect c now d)) = TieGuess
      \<and> tieGuessEndsAt (stateY (voteWindowEffect c now d)) = Some (now + 20000))
   \<and> (everyoneConfirmedFires c d \<and> votesNameEligible d \<and> tiedAtTop (windowVotesFor d) \<longrightarrow>
      phase (stateY (snd (everyoneConfirmedEffect c now d))) = TieGuess
      \<and> tieGuessEndsAt (stateY (snd (everyoneConfirmedEffect c now d))) = Some (now + 20000))"
  by (simp add: everyoneConfirmedEffect_state voteWindowEffect_state votesNameEligible_same_count)

lemma tie_goes_to_tie_guess_example:
  "everyoneConfirmedFires hostClient tieRoom \<and> votesNameEligible tieRoom
   \<and> tiedAtTop (windowVotesFor tieRoom)
   \<and> windowVotesFor tieRoom ''a'' = 2 \<and> windowVotesFor tieRoom ''b'' = 2
   \<and> phase (stateY (snd (everyoneConfirmedEffect hostClient 20000 tieRoom))) = TieGuess
   \<and> tieGuessEndsAt (stateY (snd (everyoneConfirmedEffect hostClient 20000 tieRoom))) = Some 40000
   \<and> voteWindowFires hostClient 31000 tieRoom
   \<and> phase (stateY (voteWindowEffect hostClient 31000 tieRoom)) = TieGuess
   \<and> tieGuessEndsAt (stateY (voteWindowEffect hostClient 31000 tieRoom)) = Some 51000"
proof -
  have f1: "everyoneConfirmedFires hostClient tieRoom" by code_simp
  have f2: "voteWindowFires hostClient 31000 tieRoom" by code_simp
  have e: "votesNameEligible tieRoom" by code_simp
  have "isTie (countWindow (map p_id (eligiblePlayers tieRoom)) (votes tieRoom))"
    by code_simp
  with tallied_isTie [OF tallied_window] have t: "tiedAtTop (windowVotesFor tieRoom)"
    by simp
  have n: "windowVotesFor tieRoom ''a'' = 2" "windowVotesFor tieRoom ''b'' = 2"
    by code_simp+
  from tie_goes_to_tie_guess [of hostClient 20000 tieRoom] f1 e t
  have r1: "phase (stateY (snd (everyoneConfirmedEffect hostClient 20000 tieRoom))) = TieGuess"
    "tieGuessEndsAt (stateY (snd (everyoneConfirmedEffect hostClient 20000 tieRoom))) = Some 40000"
    by simp_all
  from tie_goes_to_tie_guess [of hostClient 31000 tieRoom] f2 t
  have r2: "phase (stateY (voteWindowEffect hostClient 31000 tieRoom)) = TieGuess"
    "tieGuessEndsAt (stateY (voteWindowEffect hostClient 31000 tieRoom)) = Some 51000"
    by simp_all
  from f1 f2 e t n r1 r2 show ?thesis by (intro conjI)
qed

text \<open>
  What holds without a tie, for the same tally. The window effect reveals the round with a
  reason, and the winner is the civilians exactly when the top-voted target is one of the
  round's spies; otherwise, and in particular when no vote was counted at all
  (\<open>silentRoom\<close>), the winner is the spy. The everyone-confirmed effect does the same in a
  room where every counted vote names an eligible player (\<open>caughtRoom\<close>).
\<close>

lemma no_tie_decides_winner:
  "(voteWindowFires c now d \<and> \<not> tiedAtTop (windowVotesFor d) \<longrightarrow>
      phase (stateY (voteWindowEffect c now d)) = Revealed
      \<and> winReason (stateY (voteWindowEffect c now d)) \<noteq> None
      \<and> winner (stateY (voteWindowEffect c now d)) =
          Some (if \<exists>t. topVoted (windowVotesFor d) t \<and> t \<in> set (spies (stateY d))
                then Civ else Spy)
      \<and> ((\<forall>t. windowVotesFor d t = 0) \<longrightarrow>
          winner (stateY (voteWindowEffect c now d)) = Some Spy))
   \<and> (everyoneConfirmedFires c d \<and> votesNameEligible d \<and> \<not> tiedAtTop (windowVotesFor d) \<longrightarrow>
      phase (stateY (snd (everyoneConfirmedEffect c now d))) = Revealed
      \<and> winReason (stateY (snd (everyoneConfirmedEffect c now d))) \<noteq> None
      \<and> winner (stateY (snd (everyoneConfirmedEffect c now d))) =
          Some (if \<exists>t. topVoted (windowVotesFor d) t \<and> t \<in> set (spies (stateY d))
                then Civ else Spy))"
proof -
  have p1: "phase (stateY (voteWindowEffect c now d)) = Revealed
      \<and> winReason (stateY (voteWindowEffect c now d)) \<noteq> None
      \<and> winner (stateY (voteWindowEffect c now d)) =
          Some (if \<exists>t. topVoted (windowVotesFor d) t \<and> t \<in> set (spies (stateY d))
                then Civ else Spy)
      \<and> ((\<forall>t. windowVotesFor d t = 0) \<longrightarrow>
          winner (stateY (voteWindowEffect c now d)) = Some Spy)"
    if h: "voteWindowFires c now d \<and> \<not> tiedAtTop (windowVotesFor d)"
  proof -
    from h have s: "stateY (voteWindowEffect c now d) =
        (stateY d)\<lparr>phase := Revealed,
           winner := Some (if \<exists>t. topVoted (windowVotesFor d) t \<and> t \<in> set (spies (stateY d))
                           then Civ else Spy),
           winReason := Some (lang c,
              if \<exists>t. topVoted (windowVotesFor d) t \<and> t \<in> set (spies (stateY d))
              then VotedSpyCorrectly else VotedWrongPerson)\<rparr>"
      by (simp add: voteWindowEffect_state)
    show ?thesis
      unfolding s by (auto simp: topVoted_def)
  qed
  have p2: "phase (stateY (snd (everyoneConfirmedEffect c now d))) = Revealed
      \<and> winReason (stateY (snd (everyoneConfirmedEffect c now d))) \<noteq> None
      \<and> winner (stateY (snd (everyoneConfirmedEffect c now d))) =
          Some (if \<exists>t. topVoted (windowVotesFor d) t \<and> t \<in> set (spies (stateY d))
                then Civ else Spy)"
    if h: "everyoneConfirmedFires c d \<and> votesNameEligible d \<and> \<not> tiedAtTop (windowVotesFor d)"
  proof -
    from h have e: "confirmedVotesFor d = windowVotesFor d"
      by (simp add: votesNameEligible_same_count)
    from h have s: "stateY (snd (everyoneConfirmedEffect c now d)) =
        (stateY d)\<lparr>phase := Revealed,
           winner := Some (if \<exists>t. topVoted (windowVotesFor d) t \<and> t \<in> set (spies (stateY d))
                           then Civ else Spy),
           winReason := Some (lang c,
              if \<exists>t. topVoted (windowVotesFor d) t \<and> t \<in> set (spies (stateY d))
              then VotedSpyCorrectly else VotedWrongPerson)\<rparr>"
      by (simp add: everyoneConfirmedEffect_state e)
    show ?thesis
      unfolding s by simp
  qed
  from p1 p2 show ?thesis by blast
qed

lemma no_tie_decides_winner_example:
  "everyoneConfirmedFires hostClient caughtRoom \<and> votesNameEligible caughtRoom
   \<and> \<not> tiedAtTop (windowVotesFor caughtRoom)
   \<and> topVoted (windowVotesFor caughtRoom) ''a'' \<and> ''a'' \<in> set (spies (stateY caughtRoom))
   \<and> phase (stateY (snd (everyoneConfirmedEffect hostClient 20000 caughtRoom))) = Revealed
   \<and> winReason (stateY (snd (everyoneConfirmedEffect hostClient 20000 caughtRoom))) \<noteq> None
   \<and> winner (stateY (snd (everyoneConfirmedEffect hostClient 20000 caughtRoom))) = Some Civ
   \<and> voteWindowFires hostClient 31000 caughtRoom
   \<and> phase (stateY (voteWindowEffect hostClient 31000 caughtRoom)) = Revealed
   \<and> winReason (stateY (voteWindowEffect hostClient 31000 caughtRoom)) \<noteq> None
   \<and> winner (stateY (voteWindowEffect hostClient 31000 caughtRoom)) = Some Civ
   \<and> voteWindowFires hostClient 31000 silentRoom
   \<and> (\<forall>t. windowVotesFor silentRoom t = 0)
   \<and> phase (stateY (voteWindowEffect hostClient 31000 silentRoom)) = Revealed
   \<and> winner (stateY (voteWindowEffect hostClient 31000 silentRoom)) = Some Spy"
proof -
  have f1: "everyoneConfirmedFires hostClient caughtRoom" by code_simp
  have f2: "voteWindowFires hostClient 31000 caughtRoom" by code_simp
  have f3: "voteWindowFires hostClient 31000 silentRoom" by code_simp
  have e: "votesNameEligible caughtRoom" by code_simp
  have sp: "''a'' \<in> set (spies (stateY caughtRoom))" by code_simp
  have "\<not> isTie (countWindow (map p_id (eligiblePlayers caughtRoom)) (votes caughtRoom))"
    by code_simp
  with tallied_isTie [OF tallied_window] have t: "\<not> tiedAtTop (windowVotesFor caughtRoom)"
    by simp
  have "''a'' \<in> set (topTargets (countWindow (map p_id (eligiblePlayers caughtRoom)) (votes caughtRoom)))"
    by code_simp
  with tallied_top [OF tallied_window] have v: "topVoted (windowVotesFor caughtRoom) ''a''"
    by simp
  from v sp have ex: "\<exists>t. topVoted (windowVotesFor caughtRoom) t \<and> t \<in> set (spies (stateY caughtRoom))"
    by blast
  have "countWindow (map p_id (eligiblePlayers silentRoom)) (votes silentRoom) = []"
    by code_simp
  with tallied_window [of silentRoom] have z: "\<forall>t. windowVotesFor silentRoom t = 0"
    by (auto simp: tallied_def)
  then have nt: "\<not> tiedAtTop (windowVotesFor silentRoom)" by (simp add: tiedAtTop_def)
  from no_tie_decides_winner [of hostClient 20000 caughtRoom] f1 e t ex
  have r1: "phase (stateY (snd (everyoneConfirmedEffect hostClient 20000 caughtRoom))) = Revealed"
    "winReason (stateY (snd (everyoneConfirmedEffect hostClient 20000 caughtRoom))) \<noteq> None"
    "winner (stateY (snd (everyoneConfirmedEffect hostClient 20000 caughtRoom))) = Some Civ"
    by simp_all
  from no_tie_decides_winner [of hostClient 31000 caughtRoom] f2 t ex
  have r2: "phase (stateY (voteWindowEffect hostClient 31000 caughtRoom)) = Revealed"
    "winReason (stateY (voteWindowEffect hostClient 31000 caughtRoom)) \<noteq> None"
    "winner (stateY (voteWindowEffect hostClient 31000 caughtRoom)) = Some Civ"
    by simp_all
  from no_tie_decides_winner [of hostClient 31000 silentRoom] f3 nt z
  have r3: "phase (stateY (voteWindowEffect hostClient 31000 silentRoom)) = Revealed"
    "winner (stateY (voteWindowEffect hostClient 31000 silentRoom)) = Some Spy"
    by blast+
  from f1 f2 f3 e sp t v z r1 r2 r3 show ?thesis by (intro conjI)
qed

text \<open>
  The window effect counts a vote only when its target is eligible: every target that
  holds a count is an eligible player, and the count is the number of confirmed votes of
  eligible voters for that target.
\<close>

lemma window_tally_only_eligible_targets:
  assumes "(t, k) \<in> set (countWindow el vs)"
  shows "t \<in> set el \<and> k = votesFor (countedWindow el) vs t"
proof -
  from assms fold_tallied [of "countedWindow el" vs]
  have k: "k = votesFor (countedWindow el) vs t" "0 < k"
    by (simp_all add: countWindow_fold tallied_def)
  then have "filter (\<lambda>ve. countedWindow el ve \<and> entryTarget (snd ve) = t) vs \<noteq> []"
    by (auto simp: votesFor_def)
  then obtain ve where "countedWindow el ve" "entryTarget (snd ve) = t"
    by (auto simp: filter_empty_conv)
  then have "t \<in> set el" by (auto simp: countedWindow_def)
  with k(1) show ?thesis by simp
qed

text \<open>
  C1. A vote is to be counted only if the voter is eligible, the vote is confirmed and
  the target is itself eligible. The everyone-confirmed effect does not check the
  target. In \<open>departedRoom\<close> the player \<open>d\<close> is not eligible (it has left), yet that
  effect counts three votes for \<open>d\<close>, which outvote the one vote for the spy \<open>a\<close>: the
  round is revealed as won by the spy. The window effect, on the same room, leaves the
  votes for \<open>d\<close> out, and the civilians win.
\<close>

theorem C1_everyone_confirmed_counts_ineligible_target:
  "''d'' \<notin> set (map p_id (eligiblePlayers departedRoom))
   \<and> everyoneConfirmedFires hostClient departedRoom
   \<and> confirmedVotesFor departedRoom ''d'' = 3
   \<and> confirmedVotesFor departedRoom ''a'' = 1
   \<and> winner (stateY (snd (everyoneConfirmedEffect hostClient 20000 departedRoom))) = Some Spy
   \<and> winReason (stateY (snd (everyoneConfirmedEffect hostClient 20000 departedRoom)))
       = Some (EN, VotedWrongPerson)
   \<and> voteWindowFires hostClient 31000 departedRoom
   \<and> windowVotesFor departedRoom ''d'' = 0
   \<and> windowVotesFor departedRoom ''a'' = 1
   \<and> winner (stateY (voteWindowEffect hostClient 31000 departedRoom)) = Some Civ"
  by code_simp

text \<open>
  C3. When the voting phase resolves and two distinct targets share the highest count of the
  tally, that count being positive, the phase is to become tie-guess, with
  \<open>tieGuessEndsAt\<close> the current time plus 20 seconds. The everyone-confirmed effect
  measures the tie on its own counts, which include votes for players who are not eligible.
  In \<open>strayTieRoom\<close> the tally of votes for eligible targets is one for \<open>a\<close>, one for
  \<open>b\<close> and nothing else, a tie; the effect also counts the two votes for the departed
  \<open>d\<close>, finds \<open>d\<close> alone at the top and reveals the round as won by the spy, with no
  \<open>tieGuessEndsAt\<close>. The window effect, on the same room, moves to tie-guess.
\<close>

theorem C3_everyone_confirmed_misses_tie:
  "''d'' \<notin> set (map p_id (eligiblePlayers strayTieRoom))
   \<and> everyoneConfirmedFires hostClient strayTieRoom
   \<and> windowVotesFor strayTieRoom ''a'' = 1
   \<and> windowVotesFor strayTieRoom ''b'' = 1
   \<and> tiedAtTop (windowVotesFor strayTieRoom)
   \<and> confirmedVotesFor strayTieRoom ''d'' = 2
   \<and> phase (stateY (snd (everyoneConfirmedEffect hostClient 20000 strayTieRoom))) = Revealed
   \<and> winner (stateY (snd (everyoneConfirmedEffect hostClient 20000 strayTieRoom))) = Some Spy
   \<and> tieGuessEndsAt (stateY (snd (everyoneConfirmedEffect hostClient 20000 strayTieRoom))) = None
   \<and> voteWindowFires hostClient 31000 strayTieRoom
   \<and> phase (stateY (voteWindowEffect hostClient 31000 strayTieRoom)) = TieGuess
   \<and> tieGuessEndsAt (stateY (voteWindowEffect hostClient 31000 strayTieRoom)) = Some 51000"
proof -
  have "isTie (countWindow (map p_id (eligiblePlayers strayTieRoom)) (votes strayTieRoom))"
    by code_simp
  with tallied_isTie [OF tallied_window] have t: "tiedAtTop (windowVotesFor strayTieRoom)"
    by simp
  have r: "''d'' \<notin> set (map p_id (eligiblePlayers strayTieRoom))"
    "everyoneConfirmedFires hostClient strayTieRoom"
    "windowVotesFor strayTieRoom ''a'' = 1"
    "windowVotesFor strayTieRoom ''b'' = 1"
    "confirmedVotesFor strayTieRoom ''d'' = 2"
    "phase (stateY (snd (everyoneConfirmedEffect hostClient 20000 strayTieRoom))) = Revealed"
    "winner (stateY (snd (everyoneConfirmedEffect hostClient 20000 strayTieRoom))) = Some Spy"
    "tieGuessEndsAt (stateY (snd (everyoneConfirmedEffect hostClient 20000 strayTieRoom))) = None"
    "voteWindowFires hostClient 31000 strayTieRoom"
    "phase (stateY (voteWindowEffect hostClient 31000 strayTieRoom)) = TieGuess"
    "tieGuessEndsAt (stateY (voteWindowEffect hostClient 31000 strayTieRoom)) = Some 51000"
    by code_simp+
  from t r show ?thesis by (intro conjI)
qed

text \<open>
  C4. When the voting phase resolves without a tie and the single top-voted target is one of
  the round's spies, the winner is to be the civilians. In \<open>strayVoteRoom\<close> the tally of
  votes for eligible targets has the spy \<open>a\<close> alone at the top, with two votes; the
  everyone-confirmed effect also counts the three votes for the departed \<open>d\<close>, takes \<open>d\<close>
  for the top-voted target and reveals the round as won by the spy. The window effect, on
  the same room, reveals it as won by the civilians.
\<close>

theorem C4_everyone_confirmed_names_wrong_winner:
  "''d'' \<notin> set (map p_id (eligiblePlayers strayVoteRoom))
   \<and> everyoneConfirmedFires hostClient strayVoteRoom
   \<and> windowVotesFor strayVoteRoom ''a'' = 2
   \<and> topVoted (windowVotesFor strayVoteRoom) ''a''
   \<and> \<not> tiedAtTop (windowVotesFor strayVoteRoom)
   \<and> ''a'' \<in> set (spies (stateY strayVoteRoom))
   \<and> confirmedVotesFor strayVoteRoom ''d'' = 3
   \<and> phase (stateY (snd (everyoneConfirmedEffect hostClient 20000 strayVoteRoom))) = Revealed
   \<and> winner (stateY (snd (everyoneConfirmedEffect hostClient 20000 strayVoteRoom))) = Some Spy
   \<and> winReason (stateY (snd (everyoneConfirmedEffect hostClient 20000 strayVoteRoom)))
       = Some (EN, VotedWrongPerson)
   \<and> voteWindowFires hostClient 31000 strayVoteRoom
   \<and> phase (stateY (voteWindowEffect hostClient 31000 strayVoteRoom)) = Revealed
   \<and> winner (stateY (voteWindowEffect hostClient 31000 strayVoteRoom)) = Some Civ"
proof -
  have "\<not> isTie (countWindow (map p_id (eligiblePlayers strayVoteRoom)) (votes strayVoteRoom))"
    by code_simp
  with tallied_isTie [OF tallied_window] have t: "\<not> tiedAtTop (windowVotesFor strayVoteRoom)"
    by simp
  have "''a'' \<in> set (topTargets (countWindow (map p_id (eligiblePlayers strayVoteRoom)) (votes strayVoteRoom)))"
    by code_simp
  with tallied_top [OF tallied_window] have v: "topVoted (windowVotesFor strayVoteRoom) ''a''"
    by simp
  have r: "''d'' \<notin> set (map p_id (eligiblePlayers strayVoteRoom))"
    "everyoneConfirmedFires hostClient strayVoteRoom"
    "windowVotesFor strayVoteRoom ''a'' = 2"
    "''a'' \<in> set (spies (stateY strayVoteRoom))"
    "confirmedVotesFor strayVoteRoom ''d'' = 3"
    "phase (stateY (snd (everyoneConfirmedEffect hostClient 20000 strayVoteRoom))) = Revealed"
    "winner (stateY (snd (everyoneConfirmedEffect hostClient 20000 strayVoteRoom))) = Some Spy"
    "winReason (stateY (snd (everyoneConfirmedEffect hostClient 20000 strayVoteRoom)))
       = Some (EN, VotedWrongPerson)"
    "voteWindowFires hostClient 31000 strayVoteRoom"
    "phase (stateY (voteWindowEffect hostClient 31000 strayVoteRoom)) = Revealed"
    "winner (stateY (voteWindowEffect hostClient 31000 strayVoteRoom)) = Some Civ"
    by code_simp+
  from t v r show ?thesis by (intro conjI)
qed


section \<open>The spy's guess\<close>

text \<open>
  C2. A guess submitted by a spy while the phase is voting or tie-guess ends the round
  at once: the phase becomes revealed, the spy wins when the guessed string equals the
  round's location and the civilians win for any other string. A guess by a player who
  is not a spy, or in any other phase, leaves the document as it was.
\<close>

theorem C2_spy_guess:
  "(isSpy c d \<and> (phase (stateY d) = Voting \<or> phase (stateY d) = TieGuess) \<longrightarrow>
      phase (stateY (handleSpyPickWin c now pick d)) = Revealed
      \<and> (location (stateY d) = Some pick \<longrightarrow>
           winner (stateY (handleSpyPickWin c now pick d)) = Some Spy)
      \<and> (location (stateY d) \<noteq> Some pick \<longrightarrow>
           winner (stateY (handleSpyPickWin c now pick d)) = Some Civ))
   \<and> (\<not> isSpy c d \<or> (phase (stateY d) \<noteq> Voting \<and> phase (stateY d) \<noteq> TieGuess) \<longrightarrow>
      handleSpyPickWin c now pick d = d)"
proof -
  have guess: "phase (stateY (handleSpyPickWin c now pick d)) = Revealed
      \<and> (location (stateY d) = Some pick \<longrightarrow>
           winner (stateY (handleSpyPickWin c now pick d)) = Some Spy)
      \<and> (location (stateY d) \<noteq> Some pick \<longrightarrow>
           winner (stateY (handleSpyPickWin c now pick d)) = Some Civ)"
    if "isSpy c d" "phase (stateY d) = Voting \<or> phase (stateY d) = TieGuess"
    using that by (auto simp: handleSpyPickWin_def Let_def)
  have ignored: "handleSpyPickWin c now pick d = d"
    if "\<not> isSpy c d \<or> (phase (stateY d) \<noteq> Voting \<and> phase (stateY d) \<noteq> TieGuess)"
    using that by (auto simp: handleSpyPickWin_def)
  from guess ignored show ?thesis by blast
qed

theorem C2_spy_guess_witness:
  "isSpy hostClient tieRoom \<and> phase (stateY tieRoom) = Voting
   \<and> location (stateY tieRoom) = Some ''Beach''
   \<and> phase (stateY (handleSpyPickWin hostClient 20000 ''Beach'' tieRoom)) = Revealed
   \<and> winner (stateY (handleSpyPickWin hostClient 20000 ''Beach'' tieRoom)) = Some Spy
   \<and> phase (stateY (handleSpyPickWin hostClient 20000 ''beach'' tieRoom)) = Revealed
   \<and> winner (stateY (handleSpyPickWin hostClient 20000 ''beach'' tieRoom)) = Some Civ
   \<and> isSpy hostClient tieGuessRoom \<and> phase (stateY tieGuessRoom) = TieGuess
   \<and> phase (stateY (handleSpyPickWin hostClient 30000 ''Beach'' tieGuessRoom)) = Revealed
   \<and> winner (stateY (handleSpyPickWin hostClient 30000 ''Beach'' tieGuessRoom)) = Some Spy
   \<and> winner (stateY (handleSpyPickWin hostClient 30000 ''Airport'' tieGuessRoom)) = Some Civ
   \<and> \<not> isSpy (hostClient\<lparr>me_id := ''b''\<rparr>) tieRoom
   \<and> handleSpyPickWin (hostClient\<lparr>me_id := ''b''\<rparr>) 20000 ''Beach'' tieRoom = tieRoom
   \<and> phase (stateY emptyDoc) = Lobby
   \<and> handleSpyPickWin hostClient 20000 ''Beach'' emptyDoc = emptyDoc"
proof -
  have s1: "isSpy hostClient tieRoom" and p1: "phase (stateY tieRoom) = Voting"
    and l1: "location (stateY tieRoom) = Some ''Beach''"
    by code_simp+
  have s2: "isSpy hostClient tieGuessRoom" and p2: "phase (stateY tieGuessRoom) = TieGuess"
    and l2: "location (stateY tieGuessRoom) = Some ''Beach''"
    by code_simp+
  have s3: "\<not> isSpy (hostClient\<lparr>me_id := ''b''\<rparr>) tieRoom" by code_simp
  have p4: "phase (stateY emptyDoc) = Lobby" by code_simp
  from C2_spy_guess [of hostClient tieRoom 20000 "''Beach''"] s1 p1 l1
  have a: "phase (stateY (handleSpyPickWin hostClient 20000 ''Beach'' tieRoom)) = Revealed"
    "winner (stateY (handleSpyPickWin hostClient 20000 ''Beach'' tieRoom)) = Some Spy"
    by simp_all
  from C2_spy_guess [of hostClient tieRoom 20000 "''beach''"] s1 p1 l1
  have b: "phase (stateY (handleSpyPickWin hostClient 20000 ''beach'' tieRoom)) = Revealed"
    "winner (stateY (handleSpyPickWin hostClient 20000 ''beach'' tieRoom)) = Some Civ"
    by simp_all
  from C2_spy_guess [of hostClient tieGuessRoom 30000 "''Beach''"] s2 p2 l2
  have c: "phase (stateY (handleSpyPickWin hostClient 30000 ''Beach'' tieGuessRoom)) = Revealed"
    "winner (stateY (handleSpyPickWin hostClient 30000 ''Beach'' tieGuessRoom)) = Some Spy"
    by simp_all
  from C2_spy_guess [of hostClient tieGuessRoom 30000 "''Airport''"] s2 p2 l2
  have d: "winner (stateY (handleSpyPickWin hostClient 30000 ''Airport'' tieGuessRoom)) = Some Civ"
    by simp
  from C2_spy_guess [of "hostClient\<lparr>me_id := ''b''\<rparr>" tieRoom 20000 "''Beach''"] s3
  have e: "handleSpyPickWin (hostClient\<lparr>me_id := ''b''\<rparr>) 20000 ''Beach'' tieRoom = tieRoom"
    by blast
  from C2_spy_guess [of hostClient emptyDoc 20000 "''Beach''"] p4
  have f: "handleSpyPickWin hostClient 20000 ''Beach'' emptyDoc = emptyDoc"
    by simp
  from s1 p1 l1 a b s2 p2 c d s3 e p4 f show ?thesis by (intro conjI)
qed

section \<open>New round\<close>

text \<open>
  C9. The new-round operation, run by the host, puts every round-scoped field of the
  room state back to its default (phase, location, spy ids, roles, round start, timers,
  vote and tie windows, the per-round markers, the selected locations, the spy guesses,
  winner, winReason and closedAt), keeps hostId, gameMode, the round number and the
  creation time as they were, and empties the votes and the open-vote requests.
\<close>

theorem C9_new_round_resets_round_fields:
  "isHost c d \<longrightarrow>
     phase (stateY (snd (newRound c d))) = phase DEFAULT_STATE
     \<and> location (stateY (snd (newRound c d))) = location DEFAULT_STATE
     \<and> spyId (stateY (snd (newRound c d))) = spyId DEFAULT_STATE
     \<and> spyIds (stateY (snd (newRound c d))) = spyIds DEFAULT_STATE
     \<and> roles (stateY (snd (newRound c d))) = roles DEFAULT_STATE
     \<and> roundStartAt (stateY (snd (newRound c d))) = roundStartAt DEFAULT_STATE
     \<and> timerEnd (stateY (snd (newRound c d))) = timerEnd DEFAULT_STATE
     \<and> voteWindowEndsAt (stateY (snd (newRound c d))) = voteWindowEndsAt DEFAULT_STATE
     \<and> tieGuessEndsAt (stateY (snd (newRound c d))) = tieGuessEndsAt DEFAULT_STATE
     \<and> voteAnnouncedRound (stateY (snd (newRound c d))) = voteAnnouncedRound DEFAULT_STATE
     \<and> voteWindowSetRound (stateY (snd (newRound c d))) = voteWindowSetRound DEFAULT_STATE
     \<and> selectedLocations (stateY (snd (newRound c d))) = selectedLocations DEFAULT_STATE
     \<and> spyChoices (stateY (snd (newRound c d))) = spyChoices DEFAULT_STATE
     \<and> winner (stateY (snd (newRound c d))) = winner DEFAULT_STATE
     \<and> winReason (stateY (snd (newRound c d))) = winReason DEFAULT_STATE
     \<and> closedAt (stateY (snd (newRound c d))) = closedAt DEFAULT_STATE
     \<and> hostId (stateY (snd (newRound c d))) = hostId (stateY d)
     \<and> gameMode (stateY (snd (newRound c d))) = gameMode (stateY d)
     \<and> roundNumber (stateY (snd (newRound c d))) = roundNumber (stateY d)
     \<and> createdAt (stateY (snd (newRound c d))) = createdAt (stateY d)
     \<and> votesY (snd (newRound c d)) = []
     \<and> openVoteReqY (snd (newRound c d)) = []
     \<and> playersY (snd (newRound c d)) = playersY d
     \<and> joinAtY (snd (newRound c d)) = joinAtY d"
  by (simp add: newRound_def Let_def resetVotes_def resetOpenVoteRequests_def)

theorem C9_new_round_resets_round_fields_witness:
  "isHost hostClient tieGuessRoom
   \<and> phase (stateY tieGuessRoom) = TieGuess
   \<and> votesY tieGuessRoom \<noteq> []
   \<and> phase (stateY (snd (newRound hostClient tieGuessRoom))) = Lobby
   \<and> location (stateY (snd (newRound hostClient tieGuessRoom))) = None
   \<and> spyIds (stateY (snd (newRound hostClient tieGuessRoom))) = None
   \<and> roundStartAt (stateY (snd (newRound hostClient tieGuessRoom))) = None
   \<and> tieGuessEndsAt (stateY (snd (newRound hostClient tieGuessRoom))) = None
   \<and> hostId (stateY (snd (newRound hostClient tieGuessRoom))) = Some ''a''
   \<and> gameMode (stateY (snd (newRound hostClient tieGuessRoom))) = Classic
   \<and> roundNumber (stateY (snd (newRound hostClient tieGuessRoom))) = 1
   \<and> votesY (snd (newRound hostClient tieGuessRoom)) = []
   \<and> openVoteReqY (snd (newRound hostClient tieGuessRoom)) = []"
proof -
  have h: "isHost hostClient tieGuessRoom" by code_simp
  have v: "phase (stateY tieGuessRoom) = TieGuess" "votesY tieGuessRoom \<noteq> []"
    "hostId (stateY tieGuessRoom) = Some ''a''" "gameMode (stateY tieGuessRoom) = Classic"
    "roundNumber (stateY tieGuessRoom) = 1"
    by code_simp+
  from C9_new_round_resets_round_fields [of hostClient tieGuessRoom] h v
  show ?thesis by (simp add: DEFAULT_STATE_def)
qed

section \<open>Starting a round: how many spies\<close>

lemma players_ids: "map p_id (players d) = map fst (playersY d)"
  by (simp add: players_def case_prod_unfold comp_def)

lemma pickSpies_double:
  assumes "distinct ids" "8 \<le> length ids"
  shows "\<exists>x y. pickSpies rng Double ids = [x, y] \<and> x \<noteq> y \<and> x \<in> set ids \<and> y \<in> set ids"
proof -
  let ?n = "length ids"
  let ?i1 = "drawSpy1 rng mod ?n"
  let ?i2 = "drawSpy2 rng mod ?n"
  let ?j = "if ?i2 = ?i1 then (?i1 + 1) mod ?n else ?i2"
  from assms(2) have n: "0 < ?n" "1 < ?n" by auto
  then have r: "?i1 < ?n" "?j < ?n" by simp_all
  have ne: "?j \<noteq> ?i1"
  proof (cases "?i2 = ?i1")
    case False then show ?thesis by simp
  next
    case True
    have "(?i1 + 1) mod ?n \<noteq> ?i1"
    proof (cases "?i1 + 1 = ?n")
      case True
      with n have "(?i1 + 1) mod ?n = 0" "?i1 \<noteq> 0" by simp_all
      then show ?thesis by simp
    next
      case False
      with r(1) have "?i1 + 1 < ?n" by simp
      then show ?thesis by simp
    qed
    with True show ?thesis by simp
  qed
  from r ne assms(1) have "ids ! ?i1 \<noteq> ids ! ?j"
    by (simp add: nth_eq_iff_index_eq)
  moreover from r have "ids ! ?i1 \<in> set ids" "ids ! ?j \<in> set ids" by simp_all
  moreover from assms(2) have "pickSpies rng Double ids = [ids ! ?i1, ids ! ?j]"
    by (simp add: pickSpies_def Let_def)
  ultimately show ?thesis by blast
qed

lemma pickSpies_single:
  assumes "ids \<noteq> []" "\<not> (mode = Double \<and> 8 \<le> length ids)"
  shows "\<exists>x. pickSpies rng mode ids = [x] \<and> x \<in> set ids"
  using assms by (auto simp: pickSpies_def Let_def)

lemma startGame_spyIds:
  "gameStarts c rng locations d \<Longrightarrow>
   spyIds (stateY (snd (startGame c rng locations now d)))
     = Some (pickSpies rng (gameMode (stateY d)) (map p_id (players d)))"
  by (simp add: startGame_def gameStarts_def Let_def resetVotes_def resetOpenVoteRequests_def)


text \<open>
  C5. When the host starts a round (at least three players, a location to play), the
  spy ids written to the state are distinct ids of current players: exactly two when
  gameMode is double and at least eight players are present, and exactly one otherwise
  (classic mode, or double mode with fewer than eight players). This holds for every
  outcome of the random draws.
\<close>

theorem C5_spy_count:
  "gameStarts c rng locations d \<and> distinct (map fst (playersY d)) \<longrightarrow>
     (\<exists>ss. spyIds (stateY (snd (startGame c rng locations now d))) = Some ss
        \<and> spies (stateY (snd (startGame c rng locations now d))) = ss
        \<and> distinct ss \<and> set ss \<subseteq> set (map p_id (players d))
        \<and> length ss = (if gameMode (stateY d) = Double \<and> 8 \<le> length (players d) then 2 else 1))"
proof
  assume h: "gameStarts c rng locations d \<and> distinct (map fst (playersY d))"
  let ?ids = "map p_id (players d)"
  let ?ss = "pickSpies rng (gameMode (stateY d)) ?ids"
  from h have di: "distinct ?ids"
    by (simp add: players_ids)
  from h have len: "3 \<le> length ?ids"
    by (simp add: gameStarts_def)
  have s: "spyIds (stateY (snd (startGame c rng locations now d))) = Some ?ss"
    using h by (simp add: startGame_spyIds)
  have p: "distinct ?ss \<and> set ?ss \<subseteq> set ?ids \<and> ?ss \<noteq> []
      \<and> length ?ss = (if gameMode (stateY d) = Double \<and> 8 \<le> length (players d) then 2 else 1)"
  proof (cases "gameMode (stateY d) = Double \<and> 8 \<le> length (players d)")
    case True
    then have "8 \<le> length ?ids" and m: "gameMode (stateY d) = Double" by simp_all
    from pickSpies_double [OF di this(1), of rng] m
    obtain x y where "?ss = [x, y]" "x \<noteq> y" "x \<in> set ?ids" "y \<in> set ?ids"
      by auto
    with True show ?thesis by simp
  next
    case False
    from len have "?ids \<noteq> []" by auto
    moreover from False have "\<not> (gameMode (stateY d) = Double \<and> 8 \<le> length ?ids)"
      by simp
    ultimately obtain x where "?ss = [x]" "x \<in> set ?ids"
      using pickSpies_single [of ?ids "gameMode (stateY d)" rng] by blast
    with False show ?thesis by simp
  qed
  then have "spies (stateY (snd (startGame c rng locations now d))) = ?ss"
    using s by (cases ?ss) (simp_all add: spies_def)
  with s p show "\<exists>ss. spyIds (stateY (snd (startGame c rng locations now d))) = Some ss
        \<and> spies (stateY (snd (startGame c rng locations now d))) = ss
        \<and> distinct ss \<and> set ss \<subseteq> set (map p_id (players d))
        \<and> length ss = (if gameMode (stateY d) = Double \<and> 8 \<le> length (players d) then 2 else 1)"
    by blast
qed


theorem C5_spy_count_witness:
  "gameStarts hostClient fixedRng FALLBACK_EN (lobbyRoom Double eightIds)
   \<and> distinct (map fst (playersY (lobbyRoom Double eightIds)))
   \<and> length (players (lobbyRoom Double eightIds)) = 8
   \<and> length (spies (stateY (snd (startGame hostClient fixedRng FALLBACK_EN 1000
          (lobbyRoom Double eightIds))))) = 2
   \<and> distinct (spies (stateY (snd (startGame hostClient fixedRng FALLBACK_EN 1000
          (lobbyRoom Double eightIds)))))
   \<and> spyIds (stateY (snd (startGame hostClient fixedRng FALLBACK_EN 1000
          (lobbyRoom Double eightIds)))) = Some [''d'', ''e'']
   \<and> gameStarts hostClient fixedRng FALLBACK_EN (lobbyRoom Double (take 7 eightIds))
   \<and> length (players (lobbyRoom Double (take 7 eightIds))) = 7
   \<and> length (spies (stateY (snd (startGame hostClient fixedRng FALLBACK_EN 1000
          (lobbyRoom Double (take 7 eightIds)))))) = 1
   \<and> gameStarts hostClient fixedRng FALLBACK_EN (lobbyRoom Classic eightIds)
   \<and> length (spies (stateY (snd (startGame hostClient fixedRng FALLBACK_EN 1000
          (lobbyRoom Classic eightIds))))) = 1"
proof -
  let ?d8 = "lobbyRoom Double eightIds"
  let ?d7 = "lobbyRoom Double (take 7 eightIds)"
  let ?c8 = "lobbyRoom Classic eightIds"
  have g: "gameStarts hostClient fixedRng FALLBACK_EN ?d8"
    "gameStarts hostClient fixedRng FALLBACK_EN ?d7"
    "gameStarts hostClient fixedRng FALLBACK_EN ?c8"
    by code_simp+
  have di: "distinct (map fst (playersY ?d8))" "distinct (map fst (playersY ?d7))"
    "distinct (map fst (playersY ?c8))"
    by code_simp+
  have n: "length (players ?d8) = 8" "length (players ?d7) = 7" "length (players ?c8) = 8"
    by code_simp+
  have m: "gameMode (stateY ?d8) = Double" "gameMode (stateY ?d7) = Double"
    "gameMode (stateY ?c8) = Classic"
    by code_simp+
  have e: "spyIds (stateY (snd (startGame hostClient fixedRng FALLBACK_EN 1000 ?d8)))
      = Some [''d'', ''e'']"
    by code_simp
  from C5_spy_count [of hostClient fixedRng FALLBACK_EN ?d8 1000] g(1) di(1) n(1) m(1)
  have r8: "length (spies (stateY (snd (startGame hostClient fixedRng FALLBACK_EN 1000 ?d8)))) = 2"
    "distinct (spies (stateY (snd (startGame hostClient fixedRng FALLBACK_EN 1000 ?d8))))"
    by auto
  from C5_spy_count [of hostClient fixedRng FALLBACK_EN ?d7 1000] g(2) di(2) n(2) m(2)
  have r7: "length (spies (stateY (snd (startGame hostClient fixedRng FALLBACK_EN 1000 ?d7)))) = 1"
    by auto
  from C5_spy_count [of hostClient fixedRng FALLBACK_EN ?c8 1000] g(3) di(3) n(3) m(3)
  have rc: "length (spies (stateY (snd (startGame hostClient fixedRng FALLBACK_EN 1000 ?c8)))) = 1"
    by auto
  from g di(1) n(1,2) e r8 r7 rc show ?thesis by (intro conjI)
qed


section \<open>Closing an idle room\<close>

lemma removePlayer_players:
  "playersY (removePlayer d p) = AList.delete p (playersY d)"
  by (simp add: removePlayer_def Let_def)

lemma fold_removePlayer_keys:
  "map fst (playersY (fold (\<lambda>p acc. removePlayer acc p) ps d))
     = filter (\<lambda>k. k \<notin> set ps) (map fst (playersY d))"
proof (induction ps arbitrary: d)
  case Nil
  then show ?case by simp
next
  case (Cons p ps)
  have "filter (\<lambda>k. k \<notin> set ps) (removeAll p ks) = filter (\<lambda>k. k \<notin> set (p # ps)) ks"
    for ks :: "string list"
    by (induction ks) auto
  with Cons.IH [of "removePlayer d p"] show ?case
    by (simp add: removePlayer_players delete_keys)
qed

lemma fold_removePlayer_empties:
  assumes "set (map fst (playersY d)) \<subseteq> set ps"
  shows "playersY (fold (\<lambda>p acc. removePlayer acc p) ps d) = []"
proof -
  from assms have "filter (\<lambda>k. k \<notin> set ps) (map fst (playersY d)) = []"
    by (auto simp: filter_empty_conv)
  with fold_removePlayer_keys [of ps d] show ?thesis by simp
qed

lemma removePlayer_closedAt:
  "closedAt (stateY (removePlayer d p)) = closedAt (stateY d)"
  by (simp add: removePlayer_def Let_def)

lemma fold_removePlayer_closedAt:
  "closedAt (stateY (fold (\<lambda>p acc. removePlayer acc p) ps d)) = closedAt (stateY d)"
  by (induction ps arbitrary: d) (simp_all add: removePlayer_closedAt)

lemma lastPlayerCleanup_empty:
  "playersY d = [] \<Longrightarrow>
   lastPlayerCleanup now d = d\<lparr>stateY := DEFAULT_STATE, votesY := [], joinAtY := [],
      lastSeenY := [], activityY := [], openVoteReqY := [], nameClaimsY := []\<rparr>"
  by (simp add: lastPlayerCleanup_def Let_def)

lemma lastPlayerCleanup_funpow:
  assumes "playersY d = []" "0 < n"
  shows "(lastPlayerCleanup now ^^ n) d = lastPlayerCleanup now d"
  using assms(2)
proof (induction n)
  case 0
  then show ?case by simp
next
  case (Suc n)
  show ?case
  proof (cases "n = 0")
    case True
    then show ?thesis by simp
  next
    case False
    with Suc.IH have "(lastPlayerCleanup now ^^ n) d = lastPlayerCleanup now d" by simp
    moreover have "lastPlayerCleanup now (lastPlayerCleanup now d) = lastPlayerCleanup now d"
      using assms(1) by (simp add: lastPlayerCleanup_def Let_def)
    ultimately show ?thesis by simp
  qed
qed


text \<open>
  The effect acts only on a connected browser, on a room that is not yet closed and
  whose latest time stamp is not zero and at least five minutes old; otherwise the
  evaluation changes nothing. It removes the players that have an activity record: in
  \<open>quietRoom\<close> only \<open>a\<close> has one, the other three players stay, no cleanup follows and
  the round fields keep their values.
\<close>

lemma idleCloseTick_guarded:
  assumes "\<not> connectedUI c \<or> latestActivity d = 0 \<or> truthy (closedAt (stateY d))
           \<or> now - latestActivity d < INACTIVITY_MS"
  shows "idleCloseTick c now d = d"
  using assms by (auto simp: idleCloseTick_def idleCloseEffect_def)

lemma idleCloseTick_keeps_player_without_activity:
  "idleCloseFires hostClient 400000 quietRoom
   \<and> playersY (idleCloseTick hostClient 400000 quietRoom)
       = [(''b'', ''Bob''), (''c'', ''Cat''), (''e'', ''Eve'')]
   \<and> closedAt (stateY (idleCloseTick hostClient 400000 quietRoom)) = Some 400000
   \<and> roundStartAt (stateY (idleCloseTick hostClient 400000 quietRoom)) = Some 1000"
  by code_simp

text \<open>
  C7, as the code has it. On a connected browser, for a room that is not yet closed,
  whose latest time stamp is not zero and at least five minutes old, and in which there
  is an activity record and every player has one: the effect marks \<open>closedAt\<close> with the
  current time and removes every player; the last-player cleanup that the removals
  queued has then run, and after the evaluation every field of the room state other
  than \<open>closedAt\<close> has its default value, and the players, votes, join times, activity
  records, open-vote requests and name claims are empty.
\<close>

theorem C7_idle_close:
  "idleCloseFires c now d \<and> everyPlayerActive d \<longrightarrow>
     closedAt (stateY (fst (idleCloseEffect c now d))) = Some now
     \<and> playersY (fst (idleCloseEffect c now d)) = []
     \<and> (stateY (idleCloseTick c now d))\<lparr>closedAt := None\<rparr> = DEFAULT_STATE
     \<and> playersY (idleCloseTick c now d) = []
     \<and> votesY (idleCloseTick c now d) = []
     \<and> joinAtY (idleCloseTick c now d) = []
     \<and> activityY (idleCloseTick c now d) = []
     \<and> openVoteReqY (idleCloseTick c now d) = []
     \<and> nameClaimsY (idleCloseTick c now d) = []"
proof
  assume h: "idleCloseFires c now d \<and> everyPlayerActive d"
  let ?ps = "map fst (activityY d)"
  let ?d1 = "d\<lparr>stateY := (stateY d)\<lparr>phase := Lobby, closedAt := Some now, winner := None,
                     winReason := None, selectedLocations := None, spyChoices := Some [],
                     voteAnnouncedRound := None, voteWindowSetRound := None\<rparr>\<rparr>"
  let ?d2 = "sendChat ?d1 (lang c) RoomIdle now"
  let ?d3 = "fold (\<lambda>p acc. removePlayer acc p) ?ps ?d2"
  from h have e: "idleCloseEffect c now d = (?d3, length ?ps)"
    by (simp add: idleCloseEffect_def idleCloseFires_def Let_def)
  from h have sub: "set (map fst (playersY ?d2)) \<subseteq> set ?ps"
    by (auto simp: everyPlayerActive_def list_all_iff sendChat_def map_of_eq_None_iff)
  from h have q: "0 < length ?ps" by (simp add: everyPlayerActive_def)
  have p3: "playersY ?d3 = []" using sub by (rule fold_removePlayer_empties)
  have c3: "closedAt (stateY ?d3) = Some now"
    by (simp add: fold_removePlayer_closedAt sendChat_def)
  have t: "idleCloseTick c now d = lastPlayerCleanup now ?d3"
    using e lastPlayerCleanup_funpow [OF p3 q] by (simp add: idleCloseTick_def)
  show "closedAt (stateY (fst (idleCloseEffect c now d))) = Some now
     \<and> playersY (fst (idleCloseEffect c now d)) = []
     \<and> (stateY (idleCloseTick c now d))\<lparr>closedAt := None\<rparr> = DEFAULT_STATE
     \<and> playersY (idleCloseTick c now d) = []
     \<and> votesY (idleCloseTick c now d) = []
     \<and> joinAtY (idleCloseTick c now d) = []
     \<and> activityY (idleCloseTick c now d) = []
     \<and> openVoteReqY (idleCloseTick c now d) = []
     \<and> nameClaimsY (idleCloseTick c now d) = []"
    unfolding t e using p3 c3 by (simp add: lastPlayerCleanup_empty DEFAULT_STATE_def)
qed

theorem C7_idle_close_witness:
  "idleCloseFires hostClient 400000 tieRoom \<and> everyPlayerActive tieRoom
   \<and> closedAt (stateY (fst (idleCloseEffect hostClient 400000 tieRoom))) = Some 400000
   \<and> playersY (fst (idleCloseEffect hostClient 400000 tieRoom)) = []
   \<and> (stateY (idleCloseTick hostClient 400000 tieRoom))\<lparr>closedAt := None\<rparr> = DEFAULT_STATE
   \<and> playersY (idleCloseTick hostClient 400000 tieRoom) = []
   \<and> votesY (idleCloseTick hostClient 400000 tieRoom) = []"
proof -
  have f: "idleCloseFires hostClient 400000 tieRoom" by code_simp
  have a: "everyPlayerActive tieRoom" by code_simp
  from C7_idle_close [of hostClient 400000 tieRoom] f a show ?thesis by simp
qed

text \<open>
  The room state does not come to equal the default state with \<open>closedAt\<close> marked. In
  \<open>tieRoom\<close>, idle since time 1000 and evaluated at time 400000 by the connected host:
  right after the effect \<open>closedAt\<close> is marked but the state is not the default one (the
  round start, the location and the spy are still there); after the queued cleanup the
  state is the default one and \<open>closedAt\<close> is null, since the cleanup writes every
  entry of \<open>DEFAULT_STATE\<close>.
\<close>

theorem C7_idle_close_counterexample:
  "connectedUI hostClient
   \<and> latestActivity tieRoom = 1000
   \<and> 400000 - latestActivity tieRoom > INACTIVITY_MS
   \<and> closedAt (stateY tieRoom) = None
   \<and> closedAt (stateY (fst (idleCloseEffect hostClient 400000 tieRoom))) = Some 400000
   \<and> roundStartAt (stateY (fst (idleCloseEffect hostClient 400000 tieRoom))) = Some 1000
   \<and> location (stateY (fst (idleCloseEffect hostClient 400000 tieRoom))) = Some ''Beach''
   \<and> stateY (fst (idleCloseEffect hostClient 400000 tieRoom))
        \<noteq> DEFAULT_STATE\<lparr>closedAt := Some 400000\<rparr>
   \<and> stateY (idleCloseTick hostClient 400000 tieRoom) = DEFAULT_STATE
   \<and> closedAt (stateY (idleCloseTick hostClient 400000 tieRoom)) = None
   \<and> playersY (idleCloseTick hostClient 400000 tieRoom) = []"
  by code_simp

section \<open>Display names\<close>

subsection \<open>White space, numerals and number suffixes\<close>

lemma collapse_no_space:
  "\<forall>ch \<in> set s. \<not> isSpace ch \<Longrightarrow> collapseSpaces s = s"
  by (induction s) simp_all

lemma collapse_hd:
  "s \<noteq> [] \<Longrightarrow> \<not> isSpace (hd s) \<Longrightarrow> collapseSpaces s \<noteq> [] \<and> hd (collapseSpaces s) = hd s"
  by (cases s) simp_all

lemma collapse_last:
  "s \<noteq> [] \<Longrightarrow> \<not> isSpace (last s) \<Longrightarrow>
   collapseSpaces s \<noteq> [] \<and> last (collapseSpaces s) = last s"
proof (induction s rule: collapseSpaces.induct)
  case 1
  then show ?case by simp
next
  case (2 ch cs)
  show ?case
  proof (cases "isSpace ch")
    case True
    with "2.prems" have ne: "cs \<noteq> []" by auto
    with "2.prems" have l: "\<not> isSpace (last cs)" by simp
    with ne have ex: "\<exists>x \<in> set cs. \<not> isSpace x" by (meson last_in_set)
    then have d: "dropWhile isSpace cs \<noteq> []" by (simp add: dropWhile_eq_Nil_conv)
    have "last (dropWhile isSpace cs) = last cs"
      using d by (metis last_appendR takeWhile_dropWhile_id)
    with "2.IH"(1) [OF True d] l True ne show ?thesis by simp
  next
    case False
    show ?thesis
    proof (cases "cs = []")
      case True
      with False show ?thesis by simp
    next
      case ne: False
      with "2.prems" have "\<not> isSpace (last cs)" by simp
      with "2.IH"(2) [OF False ne] False ne show ?thesis by simp
    qed
  qed
qed

lemma collapse_append:
  "xs \<noteq> [] \<Longrightarrow> \<not> isSpace (last xs) \<Longrightarrow>
   collapseSpaces (xs @ ys) = collapseSpaces xs @ collapseSpaces ys"
proof (induction xs rule: collapseSpaces.induct)
  case 1
  then show ?case by simp
next
  case (2 ch cs)
  show ?case
  proof (cases "isSpace ch")
    case True
    with "2.prems" have ne: "cs \<noteq> []" by auto
    with "2.prems" have l: "\<not> isSpace (last cs)" by simp
    with ne have ex: "\<exists>x \<in> set cs. \<not> isSpace x" by (meson last_in_set)
    then have d: "dropWhile isSpace cs \<noteq> []" by (simp add: dropWhile_eq_Nil_conv)
    have dl: "last (dropWhile isSpace cs) = last cs"
      using d by (metis last_appendR takeWhile_dropWhile_id)
    from ex have da: "dropWhile isSpace (cs @ ys) = dropWhile isSpace cs @ ys"
      by (auto simp: dropWhile_append1)
    from "2.IH"(1) [OF True d] dl l da True show ?thesis by simp
  next
    case False
    show ?thesis
    proof (cases "cs = []")
      case True
      with False show ?thesis by simp
    next
      case ne: False
      with "2.prems" have "\<not> isSpace (last cs)" by simp
      with "2.IH"(2) [OF False ne] False show ?thesis by simp
    qed
  qed
qed

lemma collapse_idem: "collapseSpaces (collapseSpaces s) = collapseSpaces s"
proof (induction s rule: collapseSpaces.induct)
  case 1
  then show ?case by simp
next
  case (2 ch cs)
  show ?case
  proof (cases "isSpace ch")
    case True
    let ?r = "dropWhile isSpace cs"
    have "dropWhile isSpace (collapseSpaces ?r) = collapseSpaces ?r"
    proof (cases "?r = []")
      case True
      then have "collapseSpaces ?r = []" by (simp only: collapseSpaces.simps)
      then show ?thesis by (simp only: dropWhile.simps)
    next
      case False
      then have "\<not> isSpace (hd ?r)" by (rule hd_dropWhile)
      with collapse_hd [OF False] show ?thesis
        by (cases "collapseSpaces ?r") auto
    qed
    moreover have "isSpace (CHR '' '')" by (simp add: isSpace_def)
    ultimately show ?thesis using "2.IH"(1) [OF True] True by simp
  next
    case False
    with "2.IH"(2) show ?thesis by simp
  qed
qed

lemma trim_ends:
  assumes "trim s \<noteq> []"
  shows "\<not> isSpace (hd (trim s)) \<and> \<not> isSpace (last (trim s))"
proof -
  let ?u = "dropWhile isSpace s"
  let ?v = "dropWhile isSpace (rev ?u)"
  from assms have v: "?v \<noteq> []" by (simp add: trim_def)
  then have hv: "\<not> isSpace (hd ?v)" by (rule hd_dropWhile)
  from v have "last (trim s) = hd ?v" by (simp add: trim_def last_rev)
  with hv have l: "\<not> isSpace (last (trim s))" by simp
  have u: "?u \<noteq> []"
  proof
    assume "?u = []"
    then have "?v = []" by (simp only: rev.simps dropWhile.simps)
    with v show False by contradiction
  qed
  then have hu: "\<not> isSpace (hd ?u)" by (rule hd_dropWhile)
  have "rev ?u = takeWhile isSpace (rev ?u) @ ?v" by simp
  then have "?u = rev ?v @ rev (takeWhile isSpace (rev ?u))"
    by (metis rev_append rev_rev_ident)
  with v have "hd ?u = hd (rev ?v)" by (metis hd_append2 rev_is_Nil_conv)
  with hu have "\<not> isSpace (hd (trim s))" by (simp add: trim_def)
  with l show ?thesis by simp
qed

lemma dropWhile_hd: "xs \<noteq> [] \<Longrightarrow> \<not> P (hd xs) \<Longrightarrow> dropWhile P xs = xs"
  by (cases xs) simp_all

lemma trim_id:
  assumes "s \<noteq> []" "\<not> isSpace (hd s)" "\<not> isSpace (last s)"
  shows "trim s = s"
proof -
  from assms have "dropWhile isSpace s = s" by (simp add: dropWhile_hd)
  moreover from assms have "dropWhile isSpace (rev s) = rev s"
    by (intro dropWhile_hd) (simp_all add: hd_rev)
  ultimately show ?thesis by (simp add: trim_def)
qed

lemma normalizeName_tidy: "normalizeName s \<noteq> [] \<Longrightarrow> tidy (normalizeName s)"
proof -
  assume n: "normalizeName s \<noteq> []"
  then have t: "trim s \<noteq> []" by (auto simp: normalizeName_def)
  from trim_ends [OF t] collapse_hd [OF t] collapse_last [OF t] n show ?thesis
    by (simp add: tidy_def normalizeName_def collapse_idem)
qed

lemma tidy_normalizeName: "tidy b \<Longrightarrow> normalizeName b = b"
  by (simp add: tidy_def normalizeName_def trim_id)


declare showNat.simps [simp del]

lemma digit_char:
  assumes "d < 10"
  shows "isDigit (char_of (48 + d)) \<and> (of_char (char_of (48 + d) :: char) :: nat) = 48 + d"
proof -
  have "\<forall>k \<in> set [0 ..< 10]. isDigit (char_of (48 + k))
      \<and> (of_char (char_of (48 + k) :: char) :: nat) = 48 + k"
    by code_simp
  with assms show ?thesis by simp
qed

lemma showNat_digits: "showNat n \<noteq> [] \<and> (\<forall>ch \<in> set (showNat n). isDigit ch)"
proof (induction n rule: showNat.induct)
  case (1 n)
  show ?case
  proof (cases "n < 10")
    case True
    with digit_char [of n] show ?thesis by (subst showNat.simps, subst (2) showNat.simps) simp
  next
    case False
    with "1.IH" digit_char [of "n mod 10"] show ?thesis
      by (subst showNat.simps, subst (2) showNat.simps) auto
  qed
qed

lemma readNat_showNat: "readNat (showNat n) = n"
proof (induction n rule: showNat.induct)
  case (1 n)
  show ?case
  proof (cases "n < 10")
    case True
    with digit_char [of n] show ?thesis by (subst showNat.simps) (simp add: readNat_def)
  next
    case False
    with "1.IH" digit_char [of "n mod 10"] show ?thesis
      by (subst showNat.simps) (simp add: readNat_def)
  qed
qed

lemma showNat_inj: "showNat m = showNat n \<Longrightarrow> m = n"
  by (metis readNat_showNat)

lemma digit_plain:
  "isDigit ch \<Longrightarrow> \<not> isSpace ch \<and> ch \<noteq> CHR ''('' \<and> ch \<noteq> CHR '')'' \<and> lowerChar ch = ch"
  by (auto simp: isDigit_def isSpace_def lowerChar_def)

lemma toLowerCase_digits: "\<forall>ch \<in> set s. isDigit ch \<Longrightarrow> toLowerCase s = s"
  by (induction s) (simp_all add: toLowerCase_def digit_plain)

lemma numbered_tidy:
  assumes "tidy b"
  shows "tidy (numbered b m)"
proof -
  let ?ds = "showNat m"
  from assms have b: "b \<noteq> []" "\<not> isSpace (hd b)" "\<not> isSpace (last b)" "collapseSpaces b = b"
    by (simp_all add: tidy_def)
  have ns: "\<forall>ch \<in> set (CHR ''('' # ?ds @ '')''). \<not> isSpace ch"
    using showNat_digits [of m] by (auto simp: digit_plain) (simp_all add: isSpace_def)
  have sp: "isSpace (CHR '' '')" by (simp add: isSpace_def)
  have "collapseSpaces ('' ('' @ ?ds @ '')'') = '' ('' @ ?ds @ '')''"
    using collapse_no_space [OF ns] sp ns by simp
  with collapse_append [OF b(1,3), of "'' ('' @ ?ds @ '')''"] b(4)
  have c: "collapseSpaces (numbered b m) = numbered b m" by (simp add: numbered_def)
  from b(1) have h: "hd (numbered b m) = hd b" by (simp add: numbered_def)
  have l: "last (numbered b m) = CHR '')''" by (simp add: numbered_def)
  have "numbered b m \<noteq> []" by (simp add: numbered_def)
  with c h l b(2) show ?thesis by (simp add: tidy_def isSpace_def)
qed

lemma nthName_tidy: "tidy b \<Longrightarrow> tidy (nthName b j)"
  by (simp add: nthName_def numbered_tidy)

lemma nameKey_tidy: "tidy b \<Longrightarrow> nameKey b = toLowerCase b"
  by (simp add: nameKey_def tidy_normalizeName)

lemma nameKey_numbered:
  assumes "tidy b"
  shows "nameKey (numbered b m) = toLowerCase b @ '' ('' @ showNat m @ '')''"
proof -
  have "toLowerCase ('' ('' @ showNat m @ '')'') = '' ('' @ showNat m @ '')''"
    using toLowerCase_digits [of "showNat m"] showNat_digits [of m]
    by (simp add: toLowerCase_def lowerChar_def)
  then show ?thesis
    using nameKey_tidy [OF numbered_tidy [OF assms]]
    by (simp add: numbered_def toLowerCase_def)
qed

lemma nameKey_nthName_inj:
  assumes "tidy b" "nameKey (nthName b j) = nameKey (nthName b k)"
  shows "j = k"
proof -
  have len: "length (nameKey b) < length (nameKey (numbered b m))" for m
    using assms(1) by (simp add: nameKey_numbered nameKey_tidy toLowerCase_def)
  have ne: "nameKey (numbered b m) \<noteq> nameKey b" for m
    using len [of m] by auto
  show ?thesis
  proof (cases "j = 0")
    case j0: True
    show ?thesis
    proof (cases "k = 0")
      case True
      with j0 show ?thesis by simp
    next
      case False
      with j0 assms(2) ne [of "k + 1"] show ?thesis by (simp add: nthName_def)
    qed
  next
    case jn: False
    show ?thesis
    proof (cases "k = 0")
      case True
      with jn assms(2) ne [of "j + 1"] show ?thesis by (simp add: nthName_def)
    next
      case False
      with jn assms have "showNat (j + 1) = showNat (k + 1)"
        by (simp add: nthName_def nameKey_numbered)
      then have "j + 1 = k + 1" by (rule showNat_inj)
      then show ?thesis by simp
    qed
  qed
qed

lemma takeWhile_run: "\<forall>x \<in> set xs. P x \<Longrightarrow> \<not> P y \<Longrightarrow> takeWhile P (xs @ y # ys) = xs"
  by (induction xs) auto

lemma dropWhile_run: "\<forall>x \<in> set xs. P x \<Longrightarrow> \<not> P y \<Longrightarrow> dropWhile P (xs @ y # ys) = y # ys"
  by (induction xs) auto

lemma stripNumberSuffix_numbered:
  assumes "tidy b"
  shows "stripNumberSuffix (numbered b m) = b"
proof -
  let ?ds = "showNat m"
  from assms have b: "b \<noteq> []" "\<not> isSpace (last b)" by (simp_all add: tidy_def)
  from showNat_digits [of m] have d: "rev ?ds \<noteq> []" "\<forall>ch \<in> set (rev ?ds). isDigit ch"
    by simp_all
  have r: "rev (numbered b m) = CHR '')'' # rev ?ds @ CHR ''('' # CHR '' '' # rev b"
    by (simp add: numbered_def)
  have nd: "\<not> isDigit (CHR ''('')" by (simp add: isDigit_def)
  from d(2) nd have t: "takeWhile isDigit (rev ?ds @ CHR ''('' # CHR '' '' # rev b) = rev ?ds"
    by (rule takeWhile_run)
  from d(2) nd have dr: "dropWhile isDigit (rev ?ds @ CHR ''('' # CHR '' '' # rev b)
      = CHR ''('' # CHR '' '' # rev b"
    by (rule dropWhile_run)
  have sp: "isSpace (CHR '' '')" by (simp add: isSpace_def)
  from b have "dropWhile isSpace (rev b) = rev b"
    by (intro dropWhile_hd) (simp_all add: hd_rev)
  with sp have ds: "dropWhile isSpace (CHR '' '' # rev b) = rev b" by simp
  from sp have ts: "takeWhile isSpace (CHR '' '' # rev b) \<noteq> []" by simp
  show ?thesis
    unfolding stripNumberSuffix_def r using t dr ds ts d(1) by simp
qed

lemma baseName_nthName:
  assumes "tidy b" "stripNumberSuffix b = b"
  shows "baseName (nthName b j) = b"
  using assms
  by (simp add: baseName_def nthName_def tidy_normalizeName numbered_tidy stripNumberSuffix_numbered)


subsection \<open>Joining under a plain name\<close>

lemma update_new: "k \<notin> fst ` set al \<Longrightarrow> AList.update k v al = al @ [(k, v)]"
  by (induction al) auto

lemma map_of_indexed:
  assumes "\<And>j k. j \<in> set js \<Longrightarrow> k \<in> set js \<Longrightarrow> f j = f k \<Longrightarrow> j = k" "m \<in> set js"
  shows "map_of (map (\<lambda>j. (f j, v j)) js) (f m) = Some (v m)"
  using assms by (induction js) auto

lemma map_of_indexed_none:
  "\<forall>j \<in> set js. f j \<noteq> x \<Longrightarrow> map_of (map (\<lambda>j. (f j, v j)) js) x = None"
  by (induction js) auto

lemma map_upt_snoc:
  "map (\<lambda>j. g ((xs @ [x]) ! j)  j) [0 ..< length (xs @ [x])]
     = map (\<lambda>j. g (xs ! j) j) [0 ..< length xs] @ [g x (length xs)]"
  by (simp add: nth_append)

lemma findName_joined:
  assumes b: "tidy b"
    and ids: "\<forall>j < k. ids j \<noteq> [] \<and> ids j \<noteq> i"
    and m: "m \<le> k"
  shows "findName (map (\<lambda>j. (nameKey (nthName b j), ids j)) [0 ..< k]) i b (nthName b m) (m + 1)
     = Some (nthName b k)"
  using m
proof (induction "k - m" arbitrary: m)
  case 0
  then have mk: "m = k" by simp
  have "\<forall>j \<in> set [0 ..< k]. nameKey (nthName b j) \<noteq> nameKey (nthName b k)"
    by (auto dest: nameKey_nthName_inj [OF b])
  then have "map_of (map (\<lambda>j. (nameKey (nthName b j), ids j)) [0 ..< k]) (nameKey (nthName b k)) = None"
    by (rule map_of_indexed_none)
  then show ?case
    unfolding mk by (subst findName.simps) (simp add: falsyId_def)
next
  case (Suc d)
  then have lt: "m < k" and d: "d = k - (m + 1)" and le: "m + 1 \<le> k" by simp_all
  have "map_of (map (\<lambda>j. (nameKey (nthName b j), ids j)) [0 ..< k]) (nameKey (nthName b m))
      = Some (ids m)"
    using lt nameKey_nthName_inj [OF b] by (intro map_of_indexed) auto
  moreover from ids lt have "ids m \<noteq> []" "ids m \<noteq> i" by simp_all
  moreover have "numbered b (m + 1 + 1) = nthName b (m + 1)" by (simp add: nthName_def)
  ultimately show ?case
    using Suc.hyps(1) [OF d le]
    by (subst findName.simps) (simp add: falsyId_def)
qed

lemma joinNow_joined:
  assumes b: "tidy b"
    and new: "i \<notin> snd ` set tis" "i \<noteq> []"
    and ids: "[] \<notin> snd ` set tis"
  shows "joinNow t i b (joinedRoom b tis) = Some (joinedRoom b (tis @ [(t, i)]))"
proof -
  let ?k = "length tis"
  let ?d = "joinedRoom b tis"
  let ?claims = "map (\<lambda>j. (nameKey (nthName b j), snd (tis ! j))) [0 ..< ?k]"
  from new(1) have notin: "\<forall>j \<in> set [0 ..< ?k]. snd (tis ! j) \<noteq> i"
    by (metis atLeastLessThan_iff nth_mem rev_image_eqI set_upt)
  from ids have nonempty: "\<forall>j < ?k. snd (tis ! j) \<noteq> []"
    by (metis nth_mem rev_image_eqI)
  have base: "(if normalizeName b = [] then ''Player'' else normalizeName b) = b"
    using b by (simp add: tidy_normalizeName tidy_def)
  have p: "map_of (playersY ?d) i = None"
    using notin by (simp add: joinedRoom_def map_of_indexed_none)
  have f: "findName ?claims i b b 1 = Some (nthName b ?k)"
    using findName_joined [OF b, of ?k "\<lambda>j. snd (tis ! j)" i 0] notin nonempty
    by (simp add: nthName_def)
  have free: "nameKey (nthName b ?k) \<notin> fst ` set ?claims"
    by (auto dest: nameKey_nthName_inj [OF b])
  then have owner: "map_of ?claims (nameKey (nthName b ?k)) = None"
    by (simp add: map_of_eq_None_iff)
  have pk: "i \<notin> fst ` set (playersY ?d)" using notin by (auto simp: joinedRoom_def)
  have jk: "i \<notin> fst ` set (joinAtY ?d)" using notin by (auto simp: joinedRoom_def)
  have c: "nameClaimsY ?d = ?claims" by (simp add: joinedRoom_def)
  show ?thesis
    unfolding joinNow_def Let_def base p c f
    using owner update_new [OF free] update_new [OF pk] update_new [OF jk]
    by (simp add: falsyId_def joinedRoom_def nth_append emptyDoc_def)
qed


lemma joinAll_snoc:
  "joinAll (js @ [(t, i, name)]) d
     = (case joinAll js d of None \<Rightarrow> None | Some d' \<Rightarrow> joinNow t i name d')"
  by (simp add: joinAll_def)

lemma joinAll_joined:
  assumes "tidy b" "distinct (map snd tis)" "[] \<notin> snd ` set tis"
  shows "joinAll (sameNameJoins b tis) emptyDoc = Some (joinedRoom b tis)"
  using assms(2,3)
proof (induction tis rule: rev_induct)
  case Nil
  show ?case by (simp add: joinAll_def sameNameJoins_def joinedRoom_def emptyDoc_def)
next
  case (snoc x tis)
  obtain t i where x: "x = (t, i)" by (cases x)
  from snoc.prems x have new: "i \<notin> snd ` set tis" "i \<noteq> []" and old: "[] \<notin> snd ` set tis"
    and d: "distinct (map snd tis)"
    by auto
  from snoc.IH [OF d old] joinNow_joined [OF assms(1) new old, of t] show ?case
    by (simp add: sameNameJoins_def x joinAll_snoc)
qed

lemma insertBy_last: "\<forall>y \<in> set ys. \<not> cmp x y < 0 \<Longrightarrow> insertBy cmp x ys = ys @ [x]"
  by (induction ys) simp_all

lemma sortBy_sorted:
  "sorted_wrt (\<lambda>a b. \<not> cmp b a < 0) xs \<Longrightarrow> sortBy cmp xs = xs"
proof (induction xs rule: rev_induct)
  case Nil
  then show ?case by (simp add: sortBy_def)
next
  case (snoc x xs)
  then have "sortBy cmp xs = xs" "\<forall>y \<in> set xs. \<not> cmp x y < 0"
    by (simp_all add: sorted_wrt_append)
  then show ?case by (simp add: sortBy_def insertBy_last)
qed

lemma indexOf_distinct:
  assumes "distinct (map f xs)" "j < length xs"
  shows "indexOf (\<lambda>x. f x = f (xs ! j)) xs = Some j"
proof -
  from assms have "length (takeWhile (\<lambda>x. f x \<noteq> f (xs ! j)) xs) = j"
  proof (induction xs arbitrary: j)
    case Nil
    then show ?case by simp
  next
    case (Cons x xs)
    show ?case
    proof (cases j)
      case 0
      then show ?thesis by simp
    next
      case (Suc k)
      with Cons.prems have "f x \<noteq> f (xs ! k)" by auto
      with Cons.IH [of k] Cons.prems Suc show ?thesis by simp
    qed
  qed
  moreover from assms(2) have "list_ex (\<lambda>x. f x = f (xs ! j)) xs"
    by (auto simp: list_ex_iff)
  ultimately show ?thesis by (simp add: indexOf_def)
qed

lemma dedupe_joined:
  assumes b: "tidy b" "stripNumberSuffix b = b"
    and ids: "distinct (map snd tis)" "[] \<notin> snd ` set tis"
    and times: "sorted_wrt (<) (map fst tis)"
    and j: "j < length tis"
  shows "dedupeEffect cmp (member (snd (tis ! j))) (joinedRoom b tis) = joinedRoom b tis"
proof -
  let ?n = "length tis"
  let ?d = "joinedRoom b tis"
  let ?i = "snd (tis ! j)"
  let ?ps = "map (\<lambda>k. \<lparr>p_id = snd (tis ! k), p_name = nthName b k\<rparr>) [0 ..< ?n]"
  have inj: "snd (tis ! k) = snd (tis ! l) \<Longrightarrow> k = l" if "k < ?n" "l < ?n" for k l
    using ids(1) that by (auto simp: distinct_conv_nth)
  have players: "players ?d = ?ps"
    by (simp add: players_def joinedRoom_def)
  have me: "connectedUI (member ?i)" "me_id (member ?i) = ?i" "?i \<noteq> []"
    using ids(2) j by (auto simp: member_def) (metis nth_mem rev_image_eqI)
  have "map_of (map (\<lambda>k. (snd (tis ! k), nthName b k)) [0 ..< ?n]) (snd (tis ! j))
      = Some (nthName b j)"
    using j inj by (intro map_of_indexed) auto
  then have self: "map_of (playersY ?d) ?i = Some (nthName b j)"
    by (simp add: joinedRoom_def)
  have base: "baseName (nthName b k) = b" for k
    using b by (rule baseName_nthName)
  have grp: "filter (\<lambda>p. toLowerCase (baseName (p_name p)) = toLowerCase b) ?ps = ?ps"
    by (simp add: base filter_map comp_def)
  have ja: "orZero (map_of (joinAtY ?d) (snd (tis ! k))) = fst (tis ! k)" if "k < ?n" for k
  proof -
    have "map_of (map (\<lambda>k. (snd (tis ! k), fst (tis ! k))) [0 ..< ?n]) (snd (tis ! k))
        = Some (fst (tis ! k))"
      using that inj by (intro map_of_indexed) auto
    then show ?thesis by (simp add: joinedRoom_def orZero_def)
  qed
  have lt: "fst (tis ! k) < fst (tis ! l)" if "k < l" "l < ?n" for k l
    using times that by (simp add: sorted_wrt_iff_nth_less)
  have "sorted_wrt (\<lambda>a c. \<not> byJoinThenId cmp ?d c a < 0) ?ps"
    unfolding sorted_wrt_iff_nth_less
  proof (intro allI impI)
    fix k l
    assume kl: "k < l" "l < length ?ps"
    then have "k < ?n" "l < ?n" by simp_all
    with kl lt [of k l] ja [of k] ja [of l]
    show "\<not> byJoinThenId cmp ?d (?ps ! l) (?ps ! k) < 0"
      by (simp add: byJoinThenId_def Let_def)
  qed
  then have sorted: "sortBy (byJoinThenId cmp ?d) ?ps = ?ps" by (rule sortBy_sorted)
  have "distinct (map p_id ?ps)"
    using ids(1) by (simp add: comp_def distinct_conv_nth)
  from indexOf_distinct [OF this, of j] j
  have idx: "indexOf (\<lambda>p. p_id p = ?i) ?ps = Some j" by simp
  show ?thesis
    unfolding dedupeEffect_def Let_def
    using me self
    by (simp add: players base grp sorted idx) (simp add: nthName_def)
qed


text \<open>
  Plain names are numbered in the order of joining. When any number of browsers with distinct,
  non-empty identifiers join an empty room one after the other, at increasing times, all asking
  for the same name, a name that is already normalized, is not empty and carries no number suffix,
  then every join succeeds, the first browser holds the name itself and the \<open>j\<close>-th the name
  with the suffix \<open>(j)\<close>, the name keys of the players are pairwise distinct, and the
  re-derivation of every browser leaves the room as it is.
\<close>

theorem same_name_joins_numbered:
  "normalizeName name = name \<and> name \<noteq> [] \<and> baseName name = name
   \<and> distinct (map snd tis) \<and> [] \<notin> snd ` set tis \<and> sorted_wrt (<) (map fst tis) \<longrightarrow>
   (\<exists>d. joinAll (sameNameJoins name tis) emptyDoc = Some d
      \<and> playersY d = map (\<lambda>j. (snd (tis ! j), nthName name j)) [0 ..< length tis]
      \<and> distinct (map (\<lambda>p. nameKey (snd p)) (playersY d))
      \<and> (\<forall>i \<in> snd ` set tis. dedupeEffect cmp (member i) d = d))"
proof
  assume h: "normalizeName name = name \<and> name \<noteq> [] \<and> baseName name = name
   \<and> distinct (map snd tis) \<and> [] \<notin> snd ` set tis \<and> sorted_wrt (<) (map fst tis)"
  let ?d = "joinedRoom name tis"
  from h normalizeName_tidy [of name] have t: "tidy name" by simp
  from h have n: "normalizeName name = name" and bn: "baseName name = name" by blast+
  have s: "stripNumberSuffix name = name"
    using bn unfolding baseName_def n .
  from h have ids: "distinct (map snd tis)" "[] \<notin> snd ` set tis"
    and times: "sorted_wrt (<) (map fst tis)"
    by simp_all
  have j: "joinAll (sameNameJoins name tis) emptyDoc = Some ?d"
    using t ids by (rule joinAll_joined)
  have p: "playersY ?d = map (\<lambda>j. (snd (tis ! j), nthName name j)) [0 ..< length tis]"
    by (simp add: joinedRoom_def)
  have "inj_on (\<lambda>j. nameKey (nthName name j)) (set [0 ..< length tis])"
    by (auto intro!: inj_onI dest: nameKey_nthName_inj [OF t])
  then have k: "distinct (map (\<lambda>p. nameKey (snd p)) (playersY ?d))"
    unfolding p by (simp add: comp_def distinct_map)
  have r: "\<forall>i \<in> snd ` set tis. dedupeEffect cmp (member i) ?d = ?d"
  proof
    fix i
    assume "i \<in> snd ` set tis"
    then obtain m where "m < length tis" "i = snd (tis ! m)"
      by (auto simp: in_set_conv_nth)
    with dedupe_joined [OF t s ids times, of m cmp] show "dedupeEffect cmp (member i) ?d = ?d"
      by simp
  qed
  from j p k r show "\<exists>d. joinAll (sameNameJoins name tis) emptyDoc = Some d
      \<and> playersY d = map (\<lambda>j. (snd (tis ! j), nthName name j)) [0 ..< length tis]
      \<and> distinct (map (\<lambda>p. nameKey (snd p)) (playersY d))
      \<and> (\<forall>i \<in> snd ` set tis. dedupeEffect cmp (member i) d = d)"
    by blast
qed

theorem same_name_joins_numbered_witness:
  "normalizeName ''Bob'' = ''Bob'' \<and> baseName ''Bob'' = ''Bob''
   \<and> distinct (map snd [(1 :: int, ''a''), (2, ''b''), (3, ''c'')])
   \<and> sorted_wrt (<) (map fst [(1 :: int, ''a''), (2, ''b''), (3, ''c'')])
   \<and> map_option playersY (joinAll (sameNameJoins ''Bob'' [(1, ''a''), (2, ''b''), (3, ''c'')]) emptyDoc)
       = Some [(''a'', ''Bob''), (''b'', ''Bob (2)''), (''c'', ''Bob (3)'')]"
proof -
  let ?tis = "[(1 :: int, ''a''), (2, ''b''), (3, ''c'')]"
  have h: "normalizeName ''Bob'' = ''Bob''" "baseName ''Bob'' = ''Bob''"
    "distinct (map snd ?tis)" "sorted_wrt (<) (map fst ?tis)" "[] \<notin> snd ` set ?tis"
    by code_simp+
  have n: "map (\<lambda>j. (snd (?tis ! j), nthName ''Bob'' j)) [0 ..< length ?tis]
      = [(''a'', ''Bob''), (''b'', ''Bob (2)''), (''c'', ''Bob (3)'')]"
    by code_simp
  from same_name_joins_numbered [of "''Bob''" ?tis] h
  obtain d where "joinAll (sameNameJoins ''Bob'' ?tis) emptyDoc = Some d"
    "playersY d = map (\<lambda>j. (snd (?tis ! j), nthName ''Bob'' j)) [0 ..< length ?tis]"
    by auto
  with n have "map_option playersY (joinAll (sameNameJoins ''Bob'' ?tis) emptyDoc)
      = Some [(''a'', ''Bob''), (''b'', ''Bob (2)''), (''c'', ''Bob (3)'')]"
    by simp
  with h(1-4) show ?thesis by (intro conjI)
qed


subsection \<open>A name that already ends in a number suffix\<close>

text \<open>The joins and each browser's re-derivation, one step at a time.\<close>

lemma joined_numbered:
  "threeJoined ''x (5)'' = Some (joinedDoc
     [(''a'', ''x (5)''), (''b'', ''x (5) (2)''), (''c'', ''x (5) (3)'')]
     [(''x (5)'', ''a''), (''x (5) (2)'', ''b''), (''x (5) (3)'', ''c'')])"
  by code_simp

lemma joined_bob:
  "threeJoined ''Bob'' = Some (joinedDoc
     [(''a'', ''Bob''), (''b'', ''Bob (2)''), (''c'', ''Bob (3)'')]
     [(''bob'', ''a''), (''bob (2)'', ''b''), (''bob (3)'', ''c'')])"
  by code_simp

lemma dedupe_numbered_1a:
  "dedupeEffect cmp (member ''a'') (joinedDoc
     [(''a'', ''x (5)''), (''b'', ''x (5) (2)''), (''c'', ''x (5) (3)'')]
     [(''x (5)'', ''a''), (''x (5) (2)'', ''b''), (''x (5) (3)'', ''c'')])
   = joinedDoc
     [(''a'', ''x (5)''), (''b'', ''x (5) (2)''), (''c'', ''x (5) (3)'')]
     [(''x (5)'', ''a''), (''x (5) (2)'', ''b''), (''x (5) (3)'', ''c'')]"
  by code_simp

lemma dedupe_numbered_1b:
  "dedupeEffect cmp (member ''b'') (joinedDoc
     [(''a'', ''x (5)''), (''b'', ''x (5) (2)''), (''c'', ''x (5) (3)'')]
     [(''x (5)'', ''a''), (''x (5) (2)'', ''b''), (''x (5) (3)'', ''c'')])
   = joinedDoc
     [(''a'', ''x (5)''), (''b'', ''x (5)''), (''c'', ''x (5) (3)'')]
     [(''x (5)'', ''b''), (''x (5) (3)'', ''c'')]"
  by code_simp

lemma dedupe_numbered_1c:
  "dedupeEffect cmp (member ''c'') (joinedDoc
     [(''a'', ''x (5)''), (''b'', ''x (5)''), (''c'', ''x (5) (3)'')]
     [(''x (5)'', ''b''), (''x (5) (3)'', ''c'')])
   = joinedDoc
     [(''a'', ''x (5)''), (''b'', ''x (5)''), (''c'', ''x (5) (3)'')]
     [(''x (5)'', ''b''), (''x (5) (3)'', ''c'')]"
  by code_simp

lemma dedupe_numbered_2a:
  "dedupeEffect cmp (member ''a'') (joinedDoc
     [(''a'', ''x (5)''), (''b'', ''x (5)''), (''c'', ''x (5) (3)'')]
     [(''x (5)'', ''b''), (''x (5) (3)'', ''c'')])
   = joinedDoc
     [(''a'', ''x''), (''b'', ''x (5)''), (''c'', ''x (5) (3)'')]
     [(''x (5)'', ''b''), (''x (5) (3)'', ''c''), (''x'', ''a'')]"
  by code_simp

lemma dedupe_numbered_2b:
  "dedupeEffect cmp (member ''b'') (joinedDoc
     [(''a'', ''x''), (''b'', ''x (5)''), (''c'', ''x (5) (3)'')]
     [(''x (5)'', ''b''), (''x (5) (3)'', ''c''), (''x'', ''a'')])
   = joinedDoc
     [(''a'', ''x''), (''b'', ''x (2)''), (''c'', ''x (5) (3)'')]
     [(''x (5) (3)'', ''c''), (''x'', ''a''), (''x (2)'', ''b'')]"
  by code_simp

lemma dedupe_numbered_2c:
  "dedupeEffect cmp (member ''c'') (joinedDoc
     [(''a'', ''x''), (''b'', ''x (2)''), (''c'', ''x (5) (3)'')]
     [(''x (5) (3)'', ''c''), (''x'', ''a''), (''x (2)'', ''b'')])
   = joinedDoc
     [(''a'', ''x''), (''b'', ''x (2)''), (''c'', ''x (5) (3)'')]
     [(''x (5) (3)'', ''c''), (''x'', ''a''), (''x (2)'', ''b'')]"
  by code_simp

lemma dedupe_numbered_3a:
  "dedupeEffect cmp (member ''a'') (joinedDoc
     [(''a'', ''x''), (''b'', ''x (2)''), (''c'', ''x (5) (3)'')]
     [(''x (5) (3)'', ''c''), (''x'', ''a''), (''x (2)'', ''b'')])
   = joinedDoc
     [(''a'', ''x''), (''b'', ''x (2)''), (''c'', ''x (5) (3)'')]
     [(''x (5) (3)'', ''c''), (''x'', ''a''), (''x (2)'', ''b'')]"
  by code_simp

lemma dedupe_numbered_3b:
  "dedupeEffect cmp (member ''b'') (joinedDoc
     [(''a'', ''x''), (''b'', ''x (2)''), (''c'', ''x (5) (3)'')]
     [(''x (5) (3)'', ''c''), (''x'', ''a''), (''x (2)'', ''b'')])
   = joinedDoc
     [(''a'', ''x''), (''b'', ''x (2)''), (''c'', ''x (5) (3)'')]
     [(''x (5) (3)'', ''c''), (''x'', ''a''), (''x (2)'', ''b'')]"
  by code_simp

lemma rederive_numbered_1:
  "rederiveAll cmp (joinedDoc
     [(''a'', ''x (5)''), (''b'', ''x (5) (2)''), (''c'', ''x (5) (3)'')]
     [(''x (5)'', ''a''), (''x (5) (2)'', ''b''), (''x (5) (3)'', ''c'')])
   = joinedDoc
     [(''a'', ''x (5)''), (''b'', ''x (5)''), (''c'', ''x (5) (3)'')]
     [(''x (5)'', ''b''), (''x (5) (3)'', ''c'')]"
  by (simp add: rederiveAll_def dedupe_numbered_1a dedupe_numbered_1b dedupe_numbered_1c)

lemma rederive_numbered_2:
  "rederiveAll cmp (joinedDoc
     [(''a'', ''x (5)''), (''b'', ''x (5)''), (''c'', ''x (5) (3)'')]
     [(''x (5)'', ''b''), (''x (5) (3)'', ''c'')])
   = joinedDoc
     [(''a'', ''x''), (''b'', ''x (2)''), (''c'', ''x (5) (3)'')]
     [(''x (5) (3)'', ''c''), (''x'', ''a''), (''x (2)'', ''b'')]"
  by (simp add: rederiveAll_def dedupe_numbered_2a dedupe_numbered_2b dedupe_numbered_2c)

lemma rederive_numbered_3:
  "rederiveAll cmp (joinedDoc
     [(''a'', ''x''), (''b'', ''x (2)''), (''c'', ''x (5) (3)'')]
     [(''x (5) (3)'', ''c''), (''x'', ''a''), (''x (2)'', ''b'')])
   = joinedDoc
     [(''a'', ''x''), (''b'', ''x (2)''), (''c'', ''x (5) (3)'')]
     [(''x (5) (3)'', ''c''), (''x'', ''a''), (''x (2)'', ''b'')]"
  by (simp add: rederiveAll_def dedupe_numbered_3a dedupe_numbered_3b dedupe_numbered_2c)

lemma dedupe_bob_a:
  "dedupeEffect cmp (member ''a'') (joinedDoc
     [(''a'', ''Bob''), (''b'', ''Bob (2)''), (''c'', ''Bob (3)'')]
     [(''bob'', ''a''), (''bob (2)'', ''b''), (''bob (3)'', ''c'')])
   = joinedDoc
     [(''a'', ''Bob''), (''b'', ''Bob (2)''), (''c'', ''Bob (3)'')]
     [(''bob'', ''a''), (''bob (2)'', ''b''), (''bob (3)'', ''c'')]"
  by code_simp

lemma dedupe_bob_b:
  "dedupeEffect cmp (member ''b'') (joinedDoc
     [(''a'', ''Bob''), (''b'', ''Bob (2)''), (''c'', ''Bob (3)'')]
     [(''bob'', ''a''), (''bob (2)'', ''b''), (''bob (3)'', ''c'')])
   = joinedDoc
     [(''a'', ''Bob''), (''b'', ''Bob (2)''), (''c'', ''Bob (3)'')]
     [(''bob'', ''a''), (''bob (2)'', ''b''), (''bob (3)'', ''c'')]"
  by code_simp

lemma dedupe_bob_c:
  "dedupeEffect cmp (member ''c'') (joinedDoc
     [(''a'', ''Bob''), (''b'', ''Bob (2)''), (''c'', ''Bob (3)'')]
     [(''bob'', ''a''), (''bob (2)'', ''b''), (''bob (3)'', ''c'')])
   = joinedDoc
     [(''a'', ''Bob''), (''b'', ''Bob (2)''), (''c'', ''Bob (3)'')]
     [(''bob'', ''a''), (''bob (2)'', ''b''), (''bob (3)'', ''c'')]"
  by code_simp

lemma rederive_bob:
  "rederiveAll cmp (joinedDoc
     [(''a'', ''Bob''), (''b'', ''Bob (2)''), (''c'', ''Bob (3)'')]
     [(''bob'', ''a''), (''bob (2)'', ''b''), (''bob (3)'', ''c'')])
   = joinedDoc
     [(''a'', ''Bob''), (''b'', ''Bob (2)''), (''c'', ''Bob (3)'')]
     [(''bob'', ''a''), (''bob (2)'', ''b''), (''bob (3)'', ''c'')]"
  by (simp add: rederiveAll_def dedupe_bob_a dedupe_bob_b dedupe_bob_c)

text \<open>
  C8. Three players join an empty room one after the other, at times 1, 2 and 3, each
  asking for the name \<open>x (5)\<close>. The joins name them \<open>x (5)\<close>, \<open>x (5) (2)\<close> and
  \<open>x (5) (3)\<close>. The re-derivation strips a final number from a name to find its base,
  so it takes the first player's base to be \<open>x\<close> and the others' to be \<open>x (5)\<close>. After
  every browser has re-derived once, the first two players both show \<open>x (5)\<close>; after a
  second pass they are \<open>x\<close>, \<open>x (2)\<close> and \<open>x (5) (3)\<close>, and a further pass changes
  nothing. The earliest holder is then not named by the requested base, and the
  numbering has gaps. For the name \<open>Bob\<close> the same runs give \<open>Bob\<close>, \<open>Bob (2)\<close>,
  \<open>Bob (3)\<close>, unchanged by the re-derivation. The comparison of ids is arbitrary: the
  join times differ.
\<close>

theorem C8_numbered_base_breaks_numbering:
  "map_option playersY (threeJoined ''x (5)'')
     = Some [(''a'', ''x (5)''), (''b'', ''x (5) (2)''), (''c'', ''x (5) (3)'')]
   \<and> map_option (playersY \<circ> rederiveAll cmp) (threeJoined ''x (5)'')
     = Some [(''a'', ''x (5)''), (''b'', ''x (5)''), (''c'', ''x (5) (3)'')]
   \<and> map_option (playersY \<circ> rederiveAll cmp \<circ> rederiveAll cmp) (threeJoined ''x (5)'')
     = Some [(''a'', ''x''), (''b'', ''x (2)''), (''c'', ''x (5) (3)'')]
   \<and> map_option (rederiveAll cmp \<circ> rederiveAll cmp \<circ> rederiveAll cmp) (threeJoined ''x (5)'')
     = map_option (rederiveAll cmp \<circ> rederiveAll cmp) (threeJoined ''x (5)'')
   \<and> map_option playersY (threeJoined ''Bob'')
     = Some [(''a'', ''Bob''), (''b'', ''Bob (2)''), (''c'', ''Bob (3)'')]
   \<and> map_option (rederiveAll cmp) (threeJoined ''Bob'') = threeJoined ''Bob''"
  by (simp add: joined_numbered joined_bob rederive_numbered_1 rederive_numbered_2
        rederive_numbered_3 rederive_bob)
    (simp add: joinedDoc_def)

end
